theory Spec2Isabelle
  imports Complex_Main
begin

section \<open>Floating-point values as the metrics code sees them\<close>

text \<open>
  The NAV columns are numpy \<open>float64\<close> values. They are modelled as extended reals with a
  not-a-number element: \<open>Fin x\<close> is a finite value, \<open>PInf\<close> and \<open>NInf\<close> are the two
  infinities and \<open>NaN\<close> is numpy's \<open>nan\<close> (pandas' missing value). Rounding, overflow and the
  sign of zero are not modelled: arithmetic on finite values is exact real arithmetic.
  Division by zero does not raise in numpy; it yields \<open>nan\<close> or an infinity.
\<close>

datatype npfloat = Fin real | PInf | NInf | NaN

fun fl_sgn :: "npfloat \<Rightarrow> int" where
  "fl_sgn (Fin a) = (if a < 0 then - 1 else if a = 0 then 0 else 1)"
| "fl_sgn PInf = 1"
| "fl_sgn NInf = - 1"
| "fl_sgn NaN = 0"

definition inf_of_sgn :: "int \<Rightarrow> npfloat" where
  "inf_of_sgn s = (if 0 < s then PInf else NInf)"

fun fl_neg :: "npfloat \<Rightarrow> npfloat" where
  "fl_neg (Fin a) = Fin (- a)"
| "fl_neg PInf = NInf"
| "fl_neg NInf = PInf"
| "fl_neg NaN = NaN"

fun fl_add :: "npfloat \<Rightarrow> npfloat \<Rightarrow> npfloat" where
  "fl_add NaN y = NaN"
| "fl_add x NaN = NaN"
| "fl_add (Fin a) (Fin b) = Fin (a + b)"
| "fl_add (Fin a) y = y"
| "fl_add x (Fin b) = x"
| "fl_add PInf PInf = PInf"
| "fl_add NInf NInf = NInf"
| "fl_add PInf NInf = NaN"
| "fl_add NInf PInf = NaN"

definition fl_sub :: "npfloat \<Rightarrow> npfloat \<Rightarrow> npfloat" where
  "fl_sub x y = fl_add x (fl_neg y)"

fun fl_mul :: "npfloat \<Rightarrow> npfloat \<Rightarrow> npfloat" where
  "fl_mul NaN y = NaN"
| "fl_mul x NaN = NaN"
| "fl_mul (Fin a) (Fin b) = Fin (a * b)"
| "fl_mul x y = (if fl_sgn x * fl_sgn y = 0 then NaN else inf_of_sgn (fl_sgn x * fl_sgn y))"

fun fl_div :: "npfloat \<Rightarrow> npfloat \<Rightarrow> npfloat" where
  "fl_div NaN y = NaN"
| "fl_div x NaN = NaN"
| "fl_div (Fin a) (Fin b) =
     (if b = 0 then (if a = 0 then NaN else inf_of_sgn (fl_sgn (Fin a))) else Fin (a / b))"
| "fl_div (Fin a) y = Fin 0"
| "fl_div x (Fin b) = inf_of_sgn (fl_sgn x * (if b < 0 then - 1 else 1))"
| "fl_div x y = NaN"

fun fl_sqrt :: "npfloat \<Rightarrow> npfloat" where
  "fl_sqrt (Fin a) = (if a < 0 then NaN else Fin (sqrt a))"
| "fl_sqrt PInf = PInf"
| "fl_sqrt NInf = NaN"
| "fl_sqrt NaN = NaN"

text \<open>
  \<open>x ** e\<close> for a float base and a finite exponent, by the rules of C's \<open>pow\<close> that numpy
  follows: anything to the power 0 is 1, a negative base has a real power only for an
  integral exponent, and nothing is raised for a negative base (the result is \<open>nan\<close>).
\<close>

definition is_integral :: "real \<Rightarrow> bool" where
  "is_integral e = (of_int \<lfloor>e\<rfloor> = e)"

fun fl_pow :: "npfloat \<Rightarrow> real \<Rightarrow> npfloat" where
  "fl_pow NaN e = (if e = 0 then Fin 1 else NaN)"
| "fl_pow (Fin a) e =
     (if e = 0 then Fin 1
      else if 0 < a then Fin (a powr e)
      else if a = 0 then (if 0 < e then Fin 0 else PInf)
      else if is_integral e then Fin (a powi \<lfloor>e\<rfloor>)
      else NaN)"
| "fl_pow PInf e = (if e = 0 then Fin 1 else if 0 < e then PInf else Fin 0)"
| "fl_pow NInf e =
     (if e = 0 then Fin 1
      else if 0 < e then (if is_integral e \<and> odd \<lfloor>e\<rfloor> then NInf else PInf)
      else Fin 0)"

text \<open>The order of the non-\<open>nan\<close> values, and \<open>np.maximum\<close>, which propagates \<open>nan\<close>.\<close>

fun fl_less :: "npfloat \<Rightarrow> npfloat \<Rightarrow> bool" where
  "fl_less (Fin a) (Fin b) = (a < b)"
| "fl_less NInf NInf = False"
| "fl_less NInf NaN = False"
| "fl_less NInf y = True"
| "fl_less (Fin a) PInf = True"
| "fl_less x y = False"

fun np_maximum :: "npfloat \<Rightarrow> npfloat \<Rightarrow> npfloat" where
  "np_maximum NaN y = NaN"
| "np_maximum x NaN = NaN"
| "np_maximum x y = (if fl_less x y then y else x)"

subsection \<open>Series reductions (pandas skips missing values)\<close>

definition dropna :: "npfloat list \<Rightarrow> npfloat list" where
  "dropna xs = filter (\<lambda>x. x \<noteq> NaN) xs"

definition fl_min2 :: "npfloat \<Rightarrow> npfloat \<Rightarrow> npfloat" where
  "fl_min2 x y = (if fl_less y x then y else x)"

definition series_min :: "npfloat list \<Rightarrow> npfloat" where
  "series_min xs = (case dropna xs of [] \<Rightarrow> NaN | y # ys \<Rightarrow> fold (\<lambda>v m. fl_min2 m v) ys y)"

definition series_sum :: "npfloat list \<Rightarrow> npfloat" where
  "series_sum xs = fold (\<lambda>v s. fl_add s v) (dropna xs) (Fin 0)"

definition series_mean :: "npfloat list \<Rightarrow> npfloat" where
  "series_mean xs =
     (if dropna xs = [] then NaN
      else fl_div (series_sum xs) (Fin (real (length (dropna xs)))))"

text \<open>A sum that skips nothing (numpy's \<open>sum\<close>): a \<open>nan\<close> among the summands makes it
  \<open>nan\<close>.\<close>

definition plain_sum :: "npfloat list \<Rightarrow> npfloat" where
  "plain_sum xs = fold (\<lambda>v s. fl_add s v) xs (Fin 0)"

text \<open>\<open>Series.std()\<close>: the sample standard deviation (\<open>ddof = 1\<close>) of the present values;
  \<open>nan\<close> when there are fewer than two of them. The mean and the squared deviations of the
  present values are summed without skipping, so an infinite value, whose deviation from
  the mean is \<open>nan\<close>, makes the result \<open>nan\<close>.\<close>

definition series_std :: "npfloat list \<Rightarrow> npfloat" where
  "series_std xs =
     (let vs = dropna xs; n = length vs in
      if n \<le> 1 then NaN
      else let m = fl_div (plain_sum vs) (Fin (real n));
               sq = map (\<lambda>v. fl_mul (fl_sub m v) (fl_sub m v)) vs
           in fl_sqrt (fl_div (plain_sum sq) (Fin (real (n - 1)))))"

text \<open>\<open>Series.ffill()\<close>: a missing value takes the last present value before it; missing
  values before the first present one stay missing.\<close>

fun ffill_from :: "npfloat \<Rightarrow> npfloat list \<Rightarrow> npfloat list" where
  "ffill_from prev [] = []"
| "ffill_from prev (x # xs) = (if x = NaN then prev # ffill_from prev xs else x # ffill_from x xs)"

definition ffill :: "npfloat list \<Rightarrow> npfloat list" where
  "ffill xs = ffill_from NaN xs"

text \<open>\<open>Series.pct_change()\<close>: with the default \<open>fill_method='pad'\<close> the series is
  forward-filled, then each value is divided by its predecessor, minus one; the first entry
  has no predecessor and is \<open>nan\<close>.\<close>

fun ratio_steps :: "npfloat \<Rightarrow> npfloat list \<Rightarrow> npfloat list" where
  "ratio_steps prev [] = []"
| "ratio_steps prev (x # xs) = fl_sub (fl_div x prev) (Fin 1) # ratio_steps x xs"

definition pct_change :: "npfloat list \<Rightarrow> npfloat list" where
  "pct_change xs = (case ffill xs of [] \<Rightarrow> [] | y # ys \<Rightarrow> NaN # ratio_steps y ys)"

section \<open>The metrics engine (fund\_analysis.py)\<close>

datatype py_error = IndexError | ValueError | TypeError

text \<open>\<open>np.maximum.accumulate\<close>: the running maximum, up to and including each position.\<close>

fun accumulate_from :: "npfloat \<Rightarrow> npfloat list \<Rightarrow> npfloat list" where
  "accumulate_from m [] = []"
| "accumulate_from m (x # xs) = np_maximum m x # accumulate_from (np_maximum m x) xs"

definition maximum_accumulate :: "npfloat list \<Rightarrow> npfloat list" where
  "maximum_accumulate xs = (case xs of [] \<Rightarrow> [] | y # ys \<Rightarrow> y # accumulate_from y ys)"

definition drawdown_series :: "npfloat list \<Rightarrow> npfloat list" where
  "drawdown_series nav_series =
     map (\<lambda>(v, m). fl_div (fl_sub v m) m) (zip nav_series (maximum_accumulate nav_series))"

definition calculate_max_drawdown :: "npfloat list \<Rightarrow> npfloat" where
  "calculate_max_drawdown nav_series =
     (let running_max = maximum_accumulate nav_series;
          drawdown = map (\<lambda>(v, m). fl_div (fl_sub v m) m) (zip nav_series running_max);
          max_drawdown = series_min drawdown
      in fl_mul max_drawdown (Fin 100))"

definition calculate_volatility :: "npfloat list \<Rightarrow> real \<Rightarrow> npfloat" where
  "calculate_volatility nav_series periods_per_year =
     (let returns = dropna (pct_change nav_series);
          volatility = fl_mul (series_std returns) (fl_sqrt (Fin periods_per_year))
      in fl_mul volatility (Fin 100))"

text \<open>\<open>nav_series.iloc[0]\<close> and \<open>nav_series.iloc[-1]\<close> raise \<open>IndexError\<close> on an empty
  series. \<open>days\<close> is \<open>len(nav_series)\<close>, the number of rows.\<close>

definition calculate_annual_return :: "npfloat list \<Rightarrow> real \<Rightarrow> py_error + npfloat" where
  "calculate_annual_return nav_series periods_per_year =
     (if nav_series = [] then Inl IndexError
      else let total_return = fl_sub (fl_div (last nav_series) (hd nav_series)) (Fin 1);
               days = length nav_series;
               annual_return =
                 fl_sub (fl_pow (fl_add (Fin 1) total_return) (periods_per_year / real days)) (Fin 1)
           in Inr (fl_mul annual_return (Fin 100)))"

section \<open>The data layer (fund\_data.py, v3.3)\<close>

text \<open>
  A calendar date is a day number; a timestamp is a number of seconds and its calendar date
  is the day it falls in. A series (a DataFrame with the columns \<open>date\<close> and \<open>nav\<close>) is the
  list of its rows, in row order. A row of a fetched page may lack its date (\<open>NaT\<close>) and its
  value may be \<open>nan\<close> (\<open>pd.to_numeric\<close> with \<open>errors='coerce'\<close>).
\<close>

type_synonym date = int
type_synonym timestamp = int
type_synonym nav_row = "date \<times> npfloat"
type_synonym raw_row = "date option \<times> npfloat"

definition date_of :: "timestamp \<Rightarrow> date" where
  "date_of t = t div 86400"

text \<open>\<open>dropna(subset=['date', 'nav'])\<close>, \<open>drop_duplicates(subset=['date'])\<close> (which keeps
  the first row of every date) and \<open>sort_values('date')\<close>. The sort of pandas is not
  stable: it does not promise the order of rows with equal dates, and \<open>sort_values\<close> fixes
  one such order (that of a stable sort). On rows without a repeated date every sort by date
  gives the same list, and that is where the orchestrator sorts (after
  \<open>drop_duplicates\<close>). The clean-up of the fetch sorts before it de-duplicates; which of
  several rows of one date it keeps is left open by the code, and the statements about it say
  only what holds for every order of equal dates.\<close>

definition dropna_rows :: "raw_row list \<Rightarrow> nav_row list" where
  "dropna_rows rows =
     List.map_filter (\<lambda>(d, v). case d of None \<Rightarrow> None
                                 | Some d' \<Rightarrow> if v = NaN then None else Some (d', v)) rows"

fun drop_duplicates :: "nav_row list \<Rightarrow> nav_row list" where
  "drop_duplicates [] = []"
| "drop_duplicates (r # rs) = r # drop_duplicates (filter (\<lambda>q. fst q \<noteq> fst r) rs)"

definition sort_values :: "nav_row list \<Rightarrow> nav_row list" where
  "sort_values rows = sort_key fst rows"

subsection \<open>The remote endpoint and the paginated fetch\<close>

text \<open>
  What one page request yields, as the loop body distinguishes it: the text holds the
  no-data marker; \<open>pd.read_html\<close> raises; some other statement of the body raises before the
  page is accumulated (the request itself, the renaming of the seven columns, the date
  conversion); or a table is parsed into rows.
\<close>

datatype response = NoData | Unparsable | Broken | Table "raw_row list"

definition per_page :: nat where
  "per_page = 20"

text \<open>
  The \<open>while True\<close> loop of \<open>fetch_fund_data_from_api\<close>. It ends by \<open>return pd.DataFrame()\<close>
  (\<open>Aborted\<close>) or by \<open>break\<close> (\<open>Broke\<close>, with the rows accumulated so far); both carry the
  number of the last page requested. After a page is accumulated, the progress message
  formats the page's earliest date; when every date of the page is \<open>NaT\<close> that raises, and the
  handler of the loop body takes over. The loop need not end: a remote that answers every
  page with a full table keeps it running, which is the value \<open>None\<close>.
\<close>

datatype loop_result = Aborted nat | Broke nat "raw_row list"

partial_function (option) fetch_pages ::
  "(nat \<Rightarrow> response) \<Rightarrow> nat \<Rightarrow> raw_row list \<Rightarrow> loop_result option" where
  "fetch_pages remote page all_data =
     (case remote page of
        NoData \<Rightarrow> Some (Broke page all_data)
      | Unparsable \<Rightarrow> Some (if page = 1 then Aborted page else Broke page all_data)
      | Broken \<Rightarrow> Some (if page = 1 then Aborted page else Broke page all_data)
      | Table rows \<Rightarrow>
          if rows = [] then Some (Broke page all_data)
          else if list_all (\<lambda>r. fst r = None) rows
          then Some (if page = 1 then Aborted page else Broke page (all_data @ rows))
          else if length rows < per_page then Some (Broke page (all_data @ rows))
          else fetch_pages remote (page + 1) (all_data @ rows))"

text \<open>
  \<open>fetch_fund_data_from_api(fund_code, start_date, end_date)\<close>. The request URL names the
  fund code, the page size and the page only: the two dates are not used. The result is the
  number of pages requested and the series, or the error raised after the loop.
  \<open>clean_up\<close> is the block after the loop: when rows were accumulated, rows without a date or
  a value are dropped, the rest is sorted by date and de-duplicated, and the summary message
  formats the earliest date, which raises when no row survived \<open>dropna\<close>.
\<close>

definition clean_up :: "raw_row list \<Rightarrow> py_error + nav_row list" where
  "clean_up all_data =
     (if all_data = [] then Inr []
      else let cleaned = drop_duplicates (sort_values (dropna_rows all_data))
           in if cleaned = [] then Inl ValueError else Inr cleaned)"

definition fetch_fund_data_from_api ::
  "(string \<Rightarrow> nat \<Rightarrow> response) \<Rightarrow> string \<Rightarrow> date option \<Rightarrow> date option
     \<Rightarrow> (nat \<times> (py_error + nav_row list)) option" where
  "fetch_fund_data_from_api remote fund_code start_date end_date =
     (case fetch_pages (remote fund_code) 1 [] of
        None \<Rightarrow> None
      | Some (Aborted page) \<Rightarrow> Some (page, Inr [])
      | Some (Broke page all_data) \<Rightarrow> Some (page, clean_up all_data))"

subsection \<open>The local cache\<close>

text \<open>
  The cache holds, per fund code, a data file and a metadata file. \<open>Corrupt\<close> stands for a
  pair of files that cannot be read; reading it removes both. The state also counts the
  requests sent to the NAV endpoint.
\<close>

record cache_entry =
  series :: "nav_row list"
  last_update :: timestamp
  data_count :: nat
  range_start :: date
  range_end :: date

datatype cache_files = Corrupt | Stored cache_entry

record world =
  cache :: "string \<Rightarrow> cache_files option"
  requests :: nat

definition get_cached_fund_data ::
  "timestamp \<Rightarrow> string \<Rightarrow> world \<Rightarrow> (nav_row list option \<times> bool) \<times> world" where
  "get_cached_fund_data now fund_code w =
     (case cache w fund_code of
        None \<Rightarrow> ((None, False), w)
      | Some Corrupt \<Rightarrow> ((None, False), w\<lparr>cache := (cache w)(fund_code := None)\<rparr>)
      | Some (Stored e) \<Rightarrow> ((Some (series e), date_of (last_update e) = date_of now), w))"

text \<open>\<open>save_fund_data_to_cache\<close> writes the data file first and the metadata second. On an
  empty frame (\<open>pd.DataFrame()\<close>) the data file written cannot be read back and the
  metadata is not written (building it raises, and the error is swallowed): where a pair of
  files existed it is now unreadable, and where none existed there is still no pair.
  \<open>get_fund_data\<close> saves frames with rows only.\<close>

definition save_fund_data_to_cache :: "timestamp \<Rightarrow> string \<Rightarrow> nav_row list \<Rightarrow> world \<Rightarrow> world" where
  "save_fund_data_to_cache now fund_code df w =
     (if df = [] then
        (case cache w fund_code of
           None \<Rightarrow> w
         | Some files \<Rightarrow> w\<lparr>cache := (cache w)(fund_code \<mapsto> Corrupt)\<rparr>)
      else w\<lparr>cache := (cache w)(fund_code \<mapsto> Stored
              \<lparr>series = df, last_update = now, data_count = length df,
               range_start = Min (set (map fst df)), range_end = Max (set (map fst df))\<rparr>)\<rparr>)"

subsection \<open>The orchestrator\<close>

text \<open>
  The calendar-day fill: \<open>reindex\<close> over every day from the earliest to the latest date
  (it raises when a date occurs twice), then \<open>ffill\<close>.
\<close>

definition fill_missing_days :: "nav_row list \<Rightarrow> py_error + nav_row list" where
  "fill_missing_days df =
     (if \<not> distinct (map fst df) then Inl ValueError
      else let date_range = [Min (set (map fst df)) .. Max (set (map fst df))];
               reindexed = map (\<lambda>d. case map_of df d of None \<Rightarrow> NaN | Some v \<Rightarrow> v) date_range
           in Inr (zip date_range (ffill reindexed)))"

definition fill_step :: "bool \<Rightarrow> nav_row list \<Rightarrow> nav_row list" where
  "fill_step fill_missing df =
     (if fill_missing \<and> df \<noteq> [] then
        (case fill_missing_days df of Inl err \<Rightarrow> [] | Inr filled \<Rightarrow> filled)
      else df)"

text \<open>
  \<open>get_fund_data(fund_code, start_date, end_date, fill_missing)\<close>; \<open>start_date\<close> is never
  read and is left out. The clock is read once (\<open>now\<close>). Every exception inside the function
  is caught and an empty frame is returned; the changes made to the cache before it stay.
  A stored series without rows has no latest date: the comparison with the end date then
  either raises or is false, and in both cases an empty frame is returned without a request.
  The result is \<open>None\<close> exactly when the fetch loop does not end.
\<close>

definition get_fund_data ::
  "(string \<Rightarrow> nat \<Rightarrow> response) \<Rightarrow> timestamp \<Rightarrow> string \<Rightarrow> date option \<Rightarrow> bool \<Rightarrow> world
     \<Rightarrow> (nav_row list \<times> world) option" where
  "get_fund_data remote now fund_code end_date fill_missing w0 =
     (let end_day = (case end_date of None \<Rightarrow> date_of now | Some d \<Rightarrow> d);
          ((cached_data, is_today), w) = get_cached_fund_data now fund_code w0
      in case cached_data of
           Some cached \<Rightarrow>
             if is_today then Some (cached, w)
             else if cached = [] then Some ([], w)
             else let last_cache_date = Max (set (map fst cached)) in
               if end_day > last_cache_date then
                 (case fetch_fund_data_from_api remote fund_code
                         (Some (last_cache_date + 1)) (Some end_day) of
                    None \<Rightarrow> None
                  | Some (n, Inl err) \<Rightarrow> Some ([], w\<lparr>requests := requests w + n\<rparr>)
                  | Some (n, Inr new_data) \<Rightarrow>
                      let w1 = w\<lparr>requests := requests w + n\<rparr> in
                      if new_data \<noteq> [] then
                        let df = sort_values (drop_duplicates (cached @ new_data));
                            w2 = save_fund_data_to_cache now fund_code df w1
                        in Some (fill_step fill_missing df, w2)
                      else Some (fill_step fill_missing cached, w1))
               else Some (fill_step fill_missing cached, w)
         | None \<Rightarrow>
             (case fetch_fund_data_from_api remote fund_code None None of
                None \<Rightarrow> None
              | Some (n, Inl err) \<Rightarrow> Some ([], w\<lparr>requests := requests w + n\<rparr>)
              | Some (n, Inr df) \<Rightarrow>
                  let w1 = w\<lparr>requests := requests w + n\<rparr>;
                      w2 = (if df \<noteq> [] then save_fund_data_to_cache now fund_code df w1 else w1)
                  in Some (fill_step fill_missing df, w2)))"

section \<open>The analysis page of the dashboard (app/main.py)\<close>

text \<open>
  \<open>display_fund_analysis(df, fund_info)\<close>, as far as it computes: the statistics block, then
  the analysis of the period between the two dates chosen in the date widgets. Rendering is
  left out; the two dates are taken as the widgets return them, and \<open>is_money_fund\<close> is the
  flag read from \<open>fund_info\<close>. \<open>pow\<close> on a numpy float or a Series is numpy's power; a
  division of a numpy float by the integer 0 yields \<open>nan\<close> or an infinity, not an exception.
\<close>

text \<open>\<open>rolling(window=7).sum()\<close>: the sum of the last seven rows, missing before the seventh
  row and whenever a value of the window is missing; then the annualized seven-day return of
  every row. The sum is that of the seven values themselves, which is what pandas computes
  as long as no value is infinite (its running sum, updated from window to window, does not
  recover from an infinity); the statements about money funds are therefore over frames of
  finite values.\<close>

definition rolling_7day_sum :: "npfloat list \<Rightarrow> npfloat list" where
  "rolling_7day_sum navs =
     map (\<lambda>i. if i < 6 then NaN else plain_sum (take 7 (drop (i - 6) navs))) [0..<length navs]"

definition rolling_7day_annual :: "npfloat list \<Rightarrow> npfloat list" where
  "rolling_7day_annual navs =
     map (\<lambda>rolling_sum.
            let rolling_return = fl_mul (fl_div rolling_sum (Fin 10000)) (Fin 100)
            in fl_mul (fl_sub (fl_pow (fl_add (Fin 1) (fl_div rolling_return (Fin 100))) (365 / 7))
                              (Fin 1)) (Fin 100))
         (rolling_7day_sum navs)"

text \<open>
  Where the statistics block raises an exception (of whatever class). On a frame without
  rows the latest value cannot be read. For a money fund the date of the highest rolling
  figure is looked up through \<open>idxmax\<close>, which has no row to name when every rolling figure
  is missing (so always with fewer than seven rows). For another fund the date of the
  highest value is that of the first row whose value equals the maximum, and there is none
  when every value is missing.
\<close>

definition statistics_raise :: "nav_row list \<Rightarrow> bool \<Rightarrow> bool" where
  "statistics_raise df is_money_fund =
     (if df = [] then True
      else if is_money_fund then dropna (rolling_7day_annual (map snd df)) = []
      else dropna (map snd df) = [])"

text \<open>What the period analysis (the block after the date widgets) shows: the error message
  for an invalid period, or the figures of a money fund (annualized return, cumulative
  return), or those of another fund (annualized return, period return, volatility). The
  maximum drawdown, computed after these figures and without effect on them, is left out.
  The page as a whole either raises in its statistics block or shows the period analysis.\<close>

datatype analysis =
    InvalidPeriod
  | MoneyFund npfloat npfloat
  | OtherFund npfloat npfloat npfloat

datatype page = Raised | Shown analysis

definition period_analysis :: "nav_row list \<Rightarrow> bool \<Rightarrow> date \<Rightarrow> date \<Rightarrow> analysis" where
  "period_analysis df is_money_fund start_date end_date =
     (let period_df = filter (\<lambda>r. start_date \<le> fst r \<and> fst r \<le> end_date) df in
      if period_df \<noteq> [] \<and> start_date \<le> end_date then
        let trading_days = length period_df;
            calendar_days = end_date - start_date + 1;
            navs = map snd period_df
        in if is_money_fund then
             let total_income = series_sum navs;
                 cumulative_return = fl_mul (fl_div total_income (Fin 10000)) (Fin 100);
                 annual_return =
                   fl_mul (fl_sub (fl_pow (fl_add (Fin 1) (fl_div cumulative_return (Fin 100)))
                                          (365 / real_of_int calendar_days)) (Fin 1)) (Fin 100)
             in MoneyFund annual_return cumulative_return
           else
             let period_return = fl_mul (fl_sub (fl_div (last navs) (hd navs)) (Fin 1)) (Fin 100);
                 annual_return =
                   fl_mul (fl_sub (fl_pow (fl_add (Fin 1) (fl_div period_return (Fin 100)))
                                          (252 / real trading_days)) (Fin 1)) (Fin 100);
                 daily_return = pct_change navs;
                 mean_return = series_mean daily_return;
                 volatility =
                   fl_mul (fl_sqrt (fl_div
                       (series_sum (map (\<lambda>d. fl_mul (fl_sub d mean_return) (fl_sub d mean_return))
                                        daily_return))
                       (Fin (real (trading_days - 1))))) (Fin 100)
             in OtherFund annual_return period_return volatility
      else InvalidPeriod)"

definition display_fund_analysis :: "nav_row list \<Rightarrow> bool \<Rightarrow> date \<Rightarrow> date \<Rightarrow> page" where
  "display_fund_analysis df is_money_fund start_date end_date =
     (if statistics_raise df is_money_fund then Raised
      else Shown (period_analysis df is_money_fund start_date end_date))"

section \<open>Vocabulary of the statements\<close>


fun rows_of :: "response \<Rightarrow> raw_row list" where
  "rows_of (Table rows) = rows"
| "rows_of other = []"

definition full_page :: "response \<Rightarrow> bool" where
  "full_page r = (per_page \<le> length (rows_of r) \<and> \<not> list_all (\<lambda>q. fst q = None) (rows_of r))"

definition accumulated :: "(nat \<Rightarrow> response) \<Rightarrow> nat \<Rightarrow> raw_row list" where
  "accumulated pages n = concat (map (\<lambda>p. rows_of (pages p)) [1..<Suc n])"

text \<open>A row with its date and value present, as a page row; a series ordered by date without
  a repeated date; a frame without an infinite value; a cache whose stored series are all
  ordered by date without a repeated date.\<close>

definition page_row :: "nav_row \<Rightarrow> raw_row" where
  "page_row r = (Some (fst r), snd r)"

definition series_ok :: "nav_row list \<Rightarrow> bool" where
  "series_ok s = (sorted (map fst s) \<and> distinct (map fst s))"

definition finite_values :: "nav_row list \<Rightarrow> bool" where
  "finite_values df = list_all (\<lambda>r. snd r \<noteq> PInf \<and> snd r \<noteq> NInf) df"

definition cache_ok :: "world \<Rightarrow> bool" where
  "cache_ok w = (\<forall>fund_code e. cache w fund_code = Some (Stored e) \<longrightarrow> series_ok (series e))"

text \<open>The states the program can be in: it starts without cache files, every call of
  \<open>get_fund_data\<close> that returns (for any fund, remote answer, time and arguments) leads to
  the next state, and the files of a fund may become unreadable in between.\<close>

inductive reachable :: "world \<Rightarrow> bool" where
  start: "reachable \<lparr>cache = Map.empty, requests = 0\<rparr>"
| call: "reachable w \<Longrightarrow> get_fund_data remote now fund_code end_date fill_missing w = Some (s, w')
         \<Longrightarrow> reachable w'"
| damage: "reachable w \<Longrightarrow> reachable (w\<lparr>cache := (cache w)(fund_code \<mapsto> Corrupt)\<rparr>)"

section \<open>The spec's formulas, for comparison with the code\<close>

text \<open>The running maximum and the maximum drawdown as the spec words them, over real NAV
  values: the minimum over \<open>t\<close> of \<open>(nav[t] - running_max[t]) / running_max[t]\<close>, as a
  percentage.\<close>

definition spec_running_max :: "real list \<Rightarrow> nat \<Rightarrow> real" where
  "spec_running_max xs t = Max (set (take (Suc t) xs))"

definition spec_max_drawdown :: "real list \<Rightarrow> real" where
  "spec_max_drawdown xs =
     Min ((\<lambda>t. (xs ! t - spec_running_max xs t) / spec_running_max xs t) ` {..<length xs}) * 100"

text \<open>The annualized return as the spec words it, with the holding period as a parameter.\<close>

definition spec_annual_return :: "real \<Rightarrow> real \<Rightarrow> real \<Rightarrow> real \<Rightarrow> real" where
  "spec_annual_return first_nav last_nav holding_days periods_per_year =
     (let total_return = last_nav / first_nav - 1
      in ((1 + total_return) powr (periods_per_year / holding_days) - 1) * 100)"

section \<open>Example inputs\<close>

text \<open>Concrete remotes, series and cache states at which the theorems are instantiated.\<close>

text \<open>Page rows numbered \<open>lo\<close> to \<open>hi - 1\<close>, newest first, and the series of the first \<open>n\<close>
  of them; a remote of four pages of 20, 20, 20 and 15 rows; a remote whose second page
  cannot be parsed.\<close>

definition example_rows :: "nat \<Rightarrow> nat \<Rightarrow> raw_row list" where
  "example_rows lo hi = map (\<lambda>i. (Some (1000 - int i), Fin 1)) [lo..<hi]"

definition example_series :: "nat \<Rightarrow> nav_row list" where
  "example_series n = map (\<lambda>i. (1000 - int i, Fin 1)) [0..<n]"

definition four_pages :: "string \<Rightarrow> nat \<Rightarrow> response" where
  "four_pages fund_code page =
     (if page = 1 then Table (example_rows 0 20)
      else if page = 2 then Table (example_rows 20 40)
      else if page = 3 then Table (example_rows 40 60)
      else if page = 4 then Table (example_rows 60 75)
      else NoData)"

definition page_then_garbage :: "string \<Rightarrow> nat \<Rightarrow> response" where
  "page_then_garbage fund_code page = (if page = 1 then Table (example_rows 0 20) else Unparsable)"

text \<open>The same two remotes with one more row, dated and without a value, at the end of the
  last page that parses: four pages of 20, 20, 20 and 15 rows, and a page of 20 rows followed
  by a page that cannot be parsed.\<close>

definition four_pages_gap :: "string \<Rightarrow> nat \<Rightarrow> response" where
  "four_pages_gap fund_code page =
     (if page = 1 then Table (example_rows 0 20)
      else if page = 2 then Table (example_rows 20 40)
      else if page = 3 then Table (example_rows 40 60)
      else if page = 4 then Table (example_rows 60 74 @ [(Some 926, NaN)])
      else NoData)"

definition gap_then_garbage :: "string \<Rightarrow> nat \<Rightarrow> response" where
  "gap_then_garbage fund_code page =
     (if page = 1 then Table (example_rows 0 19 @ [(Some 981, NaN)]) else Unparsable)"

text \<open>A series with a weekend gap (days 4 and 7), a cache updated on day 8, a cache updated
  on day 1 and holding days 1 and 2, and a remote that reports days 1 to 3 with values that
  differ from the cached ones.\<close>

definition friday_monday :: "nav_row list" where
  "friday_monday = [(4, Fin 1), (7, Fin (11 / 10))]"

definition fresh_world :: world where
  "fresh_world = \<lparr>cache = [''000001'' \<mapsto> Stored \<lparr>series = friday_monday, last_update = 8 * 86400 + 3600,
       data_count = 2, range_start = 4, range_end = 7\<rparr>], requests = 0\<rparr>"

definition stale_world :: world where
  "stale_world = \<lparr>cache = [''000001'' \<mapsto> Stored \<lparr>series = [(1, Fin 1), (2, Fin 2)], last_update = 86400 + 3600,
       data_count = 2, range_start = 1, range_end = 2\<rparr>], requests = 0\<rparr>"

definition revised_remote :: "string \<Rightarrow> nat \<Rightarrow> response" where
  "revised_remote fund_code page =
     (if page = 1 then Table [(Some 3, Fin 4), (Some 2, Fin 3), (Some 1, Fin 2)] else NoData)"

text \<open>A remote that reports the days 3 and 4 only.\<close>

definition later_remote :: "string \<Rightarrow> nat \<Rightarrow> response" where
  "later_remote fund_code page =
     (if page = 1 then Table [(Some 4, Fin 5), (Some 3, Fin 4)] else NoData)"

text \<open>The daily income of a money fund, 1 per ten thousand units, on the days 1 to 7 and on
  day 10.\<close>

definition income_frame :: "nav_row list" where
  "income_frame = [(1, Fin 1), (2, Fin 1), (3, Fin 1), (4, Fin 1), (5, Fin 1), (6, Fin 1),
                   (7, Fin 1), (10, Fin 1)]"

section \<open>Properties of the metrics engine\<close>

lemma maximum_accumulate_length: "length (maximum_accumulate xs) = length xs"
proof -
  have "length (accumulate_from m ys) = length ys" for m ys
    by (induction ys arbitrary: m) simp_all
  then show ?thesis by (simp add: maximum_accumulate_def split: list.splits)
qed

lemma np_maximum_Fin: "np_maximum (Fin a) (Fin b) = Fin (max a b)"
  by (simp add: max_def)

lemma accumulate_from_Fin:
  "accumulate_from (Fin m) (map Fin xs) = map (\<lambda>t. Fin (Max (insert m (set (take (Suc t) xs))))) [0..<length xs]"
proof (induction xs arbitrary: m)
  case Nil
  then show ?case by simp
next
  case (Cons x xs)
  have "Max (insert m (set (take (Suc t) (x # xs)))) = Max (insert (max m x) (set (take t xs)))" for t
    by (simp add: max.assoc insert_commute) (metis List.finite_set Max_insert max.assoc Max_singleton)
  then have "map (\<lambda>t. Fin (Max (insert m (set (take (Suc t) (x # xs)))))) [0..<length (x # xs)]
      = map (\<lambda>t. Fin (Max (insert (max m x) (set (take t xs))))) [0..<Suc (length xs)]"
    by simp
  also have "\<dots> = Fin (max m x) # map (\<lambda>t. Fin (Max (insert (max m x) (set (take (Suc t) xs))))) [0..<length xs]"
    by (simp add: upt_conv_Cons map_Suc_upt [symmetric] del: upt_Suc take_Suc_Cons)
  finally show ?case using Cons.IH [of "max m x"] by (simp add: np_maximum_Fin del: np_maximum.simps)
qed

lemma maximum_accumulate_Fin:
  "maximum_accumulate (map Fin xs) = map (\<lambda>t. Fin (spec_running_max xs t)) [0..<length xs]"
proof (cases xs)
  case Nil
  then show ?thesis by (simp add: maximum_accumulate_def)
next
  case (Cons x ys)
  have "map (\<lambda>t. Fin (spec_running_max (x # ys) t)) [0..<length (x # ys)]
      = Fin x # map (\<lambda>t. Fin (Max (insert x (set (take (Suc t) ys))))) [0..<length ys]"
    by (simp add: spec_running_max_def upt_conv_Cons map_Suc_upt [symmetric] del: upt_Suc)
  then show ?thesis
    using Cons by (simp add: maximum_accumulate_def accumulate_from_Fin)
qed

lemma spec_running_max_ge:
  assumes "t < length xs"
  shows "xs ! t \<le> spec_running_max xs t"
proof -
  have "xs ! t \<in> set (take (Suc t) xs)"
    using assms by (simp add: take_Suc_conv_app_nth)
  then show ?thesis by (simp add: spec_running_max_def)
qed

lemma spec_running_max_pos:
  assumes "t < length xs" "\<forall>x\<in>set xs. 0 < x"
  shows "0 < spec_running_max xs t"
proof -
  have "0 < xs ! t" using assms by simp
  then show ?thesis using spec_running_max_ge [OF assms(1)] by linarith
qed

lemma drawdown_series_Fin:
  assumes "\<forall>x\<in>set xs. 0 < x"
  shows "drawdown_series (map Fin xs)
       = map (\<lambda>t. Fin ((xs ! t - spec_running_max xs t) / spec_running_max xs t)) [0..<length xs]"
proof (rule nth_equalityI)
  show "length (drawdown_series (map Fin xs)) = length (map (\<lambda>t. Fin ((xs ! t - spec_running_max xs t) / spec_running_max xs t)) [0..<length xs])"
    by (simp add: drawdown_series_def maximum_accumulate_length)
next
  fix t assume "t < length (drawdown_series (map Fin xs))"
  then have t: "t < length xs" by (simp add: drawdown_series_def maximum_accumulate_length)
  then have "spec_running_max xs t \<noteq> 0" using spec_running_max_pos [OF t assms] by simp
  then show "drawdown_series (map Fin xs) ! t = map (\<lambda>t. Fin ((xs ! t - spec_running_max xs t) / spec_running_max xs t)) [0..<length xs] ! t"
    using t by (simp add: drawdown_series_def maximum_accumulate_Fin fl_sub_def)
qed

lemma series_min_Fin:
  assumes "ds \<noteq> []"
  shows "series_min (map Fin ds) = Fin (Min (set ds))"
proof -
  have f: "fold (\<lambda>v m. fl_min2 m v) (map Fin ys) (Fin y) = Fin (fold min ys y)" for ys y
    by (induction ys arbitrary: y) (simp_all add: fl_min2_def min_def)
  obtain y ys where ds: "ds = y # ys" using assms by (cases ds) auto
  have "dropna (map Fin ds) = map Fin ds" by (simp add: dropna_def)
  then have "series_min (map Fin ds) = Fin (fold min ys y)"
    by (simp add: series_min_def ds f)
  moreover have "Min (set ds) = fold min ys y"
    unfolding ds using Min.set_eq_fold [of y ys] by simp
  ultimately show ?thesis by simp
qed

lemma calculate_max_drawdown_alt:
  "calculate_max_drawdown nav_series = fl_mul (series_min (drawdown_series nav_series)) (Fin 100)"
  by (simp add: calculate_max_drawdown_def drawdown_series_def)

lemma spec_max_drawdown_nonpos:
  assumes "xs \<noteq> []" and "\<forall>x\<in>set xs. 0 < x"
  shows "spec_max_drawdown xs \<le> 0"
proof -
  let ?D = "(\<lambda>t. (xs ! t - spec_running_max xs t) / spec_running_max xs t) ` {..<length xs}"
  have "0 < length xs" using assms(1) by simp
  moreover have "spec_running_max xs 0 = xs ! 0"
    using assms(1) by (cases xs) (simp_all add: spec_running_max_def)
  ultimately have "0 \<in> ?D" by (force simp: image_iff)
  then have "Min ?D \<le> 0" by (simp add: Min_le)
  then show ?thesis by (simp add: spec_max_drawdown_def mult_le_0_iff)
qed

text \<open>
  Claim C7. For a non-empty NAV series of positive values, \<open>calculate_max_drawdown\<close>
  returns the minimum over \<open>t\<close> of \<open>(nav[t] - running_max[t]) / running_max[t]\<close> times 100,
  where \<open>running_max[t]\<close> is the maximum of the values up to and including \<open>t\<close>. The
  result is never positive, the drawdown is 0 wherever the value equals its running maximum,
  and the sequence 1.0, 1.2, 0.9, 1.1 gives \<open>-25\<close>.
\<close>

theorem calculate_max_drawdown_formula:
  assumes "xs \<noteq> []" and "\<forall>x\<in>set xs. 0 < x"
  shows "calculate_max_drawdown (map Fin xs) = Fin (spec_max_drawdown xs)
       \<and> spec_max_drawdown xs \<le> 0
       \<and> (\<forall>t<length xs. xs ! t = spec_running_max xs t \<longrightarrow> drawdown_series (map Fin xs) ! t = Fin 0)
       \<and> calculate_max_drawdown [Fin 1, Fin (12 / 10), Fin (9 / 10), Fin (11 / 10)] = Fin (- 25)"
proof (intro conjI allI impI)
  let ?d = "\<lambda>t. (xs ! t - spec_running_max xs t) / spec_running_max xs t"
  have "map ?d [0..<length xs] \<noteq> []" using assms(1) by simp
  then have "series_min (map Fin (map ?d [0..<length xs])) = Fin (Min (set (map ?d [0..<length xs])))"
    by (rule series_min_Fin)
  moreover have "set (map ?d [0..<length xs]) = ?d ` {..<length xs}"
    by (simp add: atLeast0LessThan)
  ultimately show "calculate_max_drawdown (map Fin xs) = Fin (spec_max_drawdown xs)"
    by (simp add: calculate_max_drawdown_alt drawdown_series_Fin [OF assms(2)] spec_max_drawdown_def comp_def)
next
  show "spec_max_drawdown xs \<le> 0" by (rule spec_max_drawdown_nonpos [OF assms])
next
  fix t assume "t < length xs" and "xs ! t = spec_running_max xs t"
  then show "drawdown_series (map Fin xs) ! t = Fin 0"
    by (simp add: drawdown_series_Fin [OF assms(2)])
next
  show "calculate_max_drawdown [Fin 1, Fin (12 / 10), Fin (9 / 10), Fin (11 / 10)] = Fin (- 25)"
    by (simp add: calculate_max_drawdown_def maximum_accumulate_def series_min_def dropna_def
        fl_min2_def fl_sub_def)
qed

text \<open>The theorem at the series 1.0, 1.2, 0.9, 1.1; position 1 is a running-maximum point.\<close>

theorem calculate_max_drawdown_formula_witness:
  "calculate_max_drawdown (map Fin [1, 12 / 10, 9 / 10, 11 / 10])
     = Fin (spec_max_drawdown [1, 12 / 10, 9 / 10, 11 / 10])
   \<and> spec_max_drawdown [1, 12 / 10, 9 / 10, 11 / 10] \<le> 0
   \<and> drawdown_series (map Fin [1, 12 / 10, 9 / 10, 11 / 10]) ! 1 = Fin 0
   \<and> spec_max_drawdown [1, 12 / 10, 9 / 10, 11 / 10] = - 25"
proof -
  let ?xs = "[1, 12 / 10, 9 / 10, 11 / 10] :: real list"
  have h1: "?xs \<noteq> []" by simp
  have h2: "\<forall>x\<in>set ?xs. 0 < x" by simp
  have rm: "?xs ! 1 = spec_running_max ?xs 1" by (simp add: spec_running_max_def)
  note th = calculate_max_drawdown_formula [OF h1 h2]
  have a: "calculate_max_drawdown (map Fin ?xs) = Fin (spec_max_drawdown ?xs)"
    using th by (rule conjunct1)
  have b: "spec_max_drawdown ?xs \<le> 0"
    using th by blast
  have c: "drawdown_series (map Fin ?xs) ! 1 = Fin 0"
    using th rm by (simp del: list.map nth_Cons_numeral)
  have d: "calculate_max_drawdown [Fin 1, Fin (12 / 10), Fin (9 / 10), Fin (11 / 10)] = Fin (- 25)"
    using th by blast
  have "map Fin ?xs = [Fin 1, Fin (12 / 10), Fin (9 / 10), Fin (11 / 10)]" by simp
  with a d have "Fin (spec_max_drawdown ?xs) = Fin (- 25)" by (simp only:)
  then have e: "spec_max_drawdown ?xs = - 25" by (simp only: npfloat.inject)
  from a b c e show ?thesis by (intro conjI)
qed

lemma fl_pow_pos: "0 < a \<Longrightarrow> fl_pow (Fin a) e = Fin (a powr e)"
  by simp

lemma calculate_annual_return_Fin:
  assumes "xs \<noteq> []" and "0 < hd xs" and "0 < last xs"
  shows "calculate_annual_return (map Fin xs) p
       = Inr (Fin (((last xs / hd xs) powr (p / real (length xs)) - 1) * 100))"
proof -
  have q: "0 < last xs / hd xs" using assms by simp
  have "hd (map Fin xs) = Fin (hd xs)" "last (map Fin xs) = Fin (last xs)"
    using assms(1) by (simp_all add: hd_map last_map)
  moreover have "hd xs \<noteq> 0" using assms(2) by simp
  ultimately show ?thesis
    using assms(1) q by (simp add: calculate_annual_return_def fl_sub_def Let_def del: fl_pow.simps add: fl_pow_pos)
qed

text \<open>
  Claim C8, as the code has it. \<open>calculate_annual_return\<close> computes
  \<open>((1 + total_return) ^ (periods_per_year / days) - 1) * 100\<close> with
  \<open>total_return = nav[last] / nav[first] - 1\<close>, where \<open>days\<close> is the number of rows of the
  series (\<open>len(nav_series)\<close>), not the number of calendar days between the first and the
  last row. When the series has exactly \<open>periods_per_year\<close> rows the result is the total
  return as a percentage.
\<close>

theorem calculate_annual_return_rows:
  assumes "xs \<noteq> []" and "0 < hd xs" and "0 < last xs"
  shows "calculate_annual_return (map Fin xs) p
           = Inr (Fin (spec_annual_return (hd xs) (last xs) (real (length xs)) p))
       \<and> (p = real (length xs) \<longrightarrow>
            calculate_annual_return (map Fin xs) p = Inr (Fin ((last xs / hd xs - 1) * 100)))"
proof -
  have q: "0 < last xs / hd xs" using assms by simp
  have n: "real (length xs) \<noteq> 0" using assms(1) by simp
  show ?thesis
    using q n assms(2,3) by (simp add: calculate_annual_return_Fin [OF assms] spec_annual_return_def)
qed

text \<open>A series of 252 rows rising from 1.0 to 1.1 is annualized to 10 percent; the
  two-row series is annualized with a holding period of 2.\<close>

theorem calculate_annual_return_rows_witness:
  "calculate_annual_return (map Fin (1 # replicate 250 1 @ [11 / 10])) 252 = Inr (Fin 10)
   \<and> calculate_annual_return (map Fin [1, 11 / 10]) 252
       = Inr (Fin (spec_annual_return 1 (11 / 10) 2 252))"
proof -
  let ?xs = "1 # replicate 250 1 @ [11 / 10] :: real list"
  have h: "?xs \<noteq> []" "0 < hd ?xs" "0 < last ?xs" by simp_all
  have l: "(252::real) = real (length ?xs)" by simp
  have v: "(last ?xs / hd ?xs - 1) * 100 = 10" by simp
  have "calculate_annual_return (map Fin ?xs) 252 = Inr (Fin ((last ?xs / hd ?xs - 1) * 100))"
    using calculate_annual_return_rows [OF h, of 252] l by blast
  then have a: "calculate_annual_return (map Fin ?xs) 252 = Inr (Fin 10)"
    by (simp only: v)
  let ?ys = "[1, 11 / 10] :: real list"
  have k: "?ys \<noteq> []" "0 < hd ?ys" "0 < last ?ys" by simp_all
  have b: "calculate_annual_return (map Fin ?ys) 252 = Inr (Fin (spec_annual_return 1 (11 / 10) 2 252))"
    using calculate_annual_return_rows [OF k, of 252] by simp
  from a b show ?thesis by (intro conjI)
qed

text \<open>
  The spec's scenario for C8: the two rows 1.0000 and 1.1000, 252 days apart, with
  \<open>periods_per_year = 252\<close>. With a holding period of 252 days the formula gives 10
  percent; the code divides by the row count 2, raises 1.1 to the power 126 and returns more
  than a million percent.
\<close>

theorem calculate_annual_return_days_counterexample:
  "spec_annual_return 1 (11 / 10) 252 252 = 10
   \<and> calculate_annual_return [Fin 1, Fin (11 / 10)] 252 = Inr (Fin (((11 / 10) ^ 126 - 1) * 100))
   \<and> 1000000 < (((11 / 10) ^ 126 - 1) * 100 :: real)"
proof (intro conjI)
  show "spec_annual_return 1 (11 / 10) 252 252 = 10"
    by (simp add: spec_annual_return_def)
  have "(11 / 10 :: real) powr 126 = (11 / 10) ^ 126"
    using powr_numeral [of "11 / 10 :: real"] by simp
  then show "calculate_annual_return [Fin 1, Fin (11 / 10)] 252 = Inr (Fin (((11 / 10) ^ 126 - 1) * 100))"
    by (simp add: calculate_annual_return_def fl_sub_def)
  show "1000000 < (((11 / 10) ^ 126 - 1) * 100 :: real)"
    by (simp add: power_divide)
qed

section \<open>Properties of the data layer\<close>

subsection \<open>De-duplication and sorting\<close>

lemma drop_duplicates_map_of: "map_of (drop_duplicates rs) = map_of rs"
proof (induction rs rule: drop_duplicates.induct)
  case 1
  then show ?case by simp
next
  case (2 r rs)
  have "map_of (filter (\<lambda>q. fst q \<noteq> fst r) rs) k = map_of rs k" if "k \<noteq> fst r" for k
    using that by (induction rs) auto
  then show ?case using 2 by (auto simp: fun_eq_iff)
qed

lemma drop_duplicates_dates: "fst ` set (drop_duplicates rs) = fst ` set rs"
proof (induction rs rule: drop_duplicates.induct)
  case 1
  then show ?case by simp
next
  case (2 r rs)
  then show ?case by auto
qed

lemma drop_duplicates_distinct: "distinct (map fst (drop_duplicates rs))"
proof (induction rs rule: drop_duplicates.induct)
  case 1
  then show ?case by simp
next
  case (2 r rs)
  have "fst r \<notin> fst ` set (drop_duplicates (filter (\<lambda>q. fst q \<noteq> fst r) rs))"
    unfolding drop_duplicates_dates by auto
  then show ?case using 2 by simp
qed

lemma drop_duplicates_subset: "set (drop_duplicates rs) \<subseteq> set rs"
  by (induction rs rule: drop_duplicates.induct) auto

lemma drop_duplicates_id: "distinct (map fst rs) \<Longrightarrow> drop_duplicates rs = rs"
proof (induction rs)
  case Nil
  then show ?case by simp
next
  case (Cons r rs)
  from Cons.prems have "fst r \<notin> fst ` set rs" by simp
  then have "\<forall>q\<in>set rs. fst q \<noteq> fst r" by (metis imageI)
  then have "filter (\<lambda>q. fst q \<noteq> fst r) rs = rs"
    by (simp add: filter_id_conv)
  then show ?case using Cons by simp
qed

lemma drop_duplicates_sorted:
  "sorted (map fst rs) \<Longrightarrow> sorted (map fst (drop_duplicates rs))"
proof (induction rs rule: drop_duplicates.induct)
  case 1
  then show ?case by simp
next
  case (2 r rs)
  have "sorted (map fst (filter (\<lambda>q. fst q \<noteq> fst r) rs))"
    using 2(2) by (simp add: sorted_filter)
  moreover have "\<forall>q \<in> set (drop_duplicates (filter (\<lambda>q. fst q \<noteq> fst r) rs)). fst r \<le> fst q"
    using 2(2) drop_duplicates_subset [of "filter (\<lambda>q. fst q \<noteq> fst r) rs"] by auto
  ultimately show ?case using 2(1) by simp
qed

lemma sort_values_sorted: "sorted (map fst (sort_values rs))"
  by (simp add: sort_values_def)

lemma sort_values_set: "set (sort_values rs) = set rs"
  by (simp add: sort_values_def)

lemma sort_values_distinct: "distinct (map fst (sort_values rs)) = distinct (map fst rs)"
  by (simp add: sort_values_def distinct_map)

lemma sort_values_Nil: "sort_values rs = [] \<longleftrightarrow> rs = []"
  by (metis sort_values_set set_empty)

lemma sort_values_map_of:
  "distinct (map fst rs) \<Longrightarrow> map_of (sort_values rs) = map_of rs"
  by (rule map_of_inject_set [THEN iffD2]) (simp_all add: sort_values_distinct sort_values_set)

lemma sort_values_id: "sorted (map fst rs) \<Longrightarrow> sort_values rs = rs"
  by (simp add: sort_values_def sort_key_id_if_sorted)

lemma rows_determined_by_dates:
  fixes s t :: "nav_row list"
  assumes "map fst s = map fst t" and "set s = set t" and "distinct (map fst s)"
  shows "s = t"
proof (rule nth_equalityI)
  show len: "length s = length t" using assms(1) by (metis length_map)
  fix i assume i: "i < length s"
  then have "s ! i \<in> set t" using assms(2) nth_mem by blast
  then obtain j where j: "j < length t" and eq: "t ! j = s ! i" by (auto simp: in_set_conv_nth)
  have "map fst s ! j = fst (t ! j)" using j assms(1) by simp
  also have "\<dots> = map fst s ! i" using eq i by simp
  finally have "map fst s ! j = map fst s ! i" .
  moreover have "j < length (map fst s)" "i < length (map fst s)" using i j len by simp_all
  ultimately have "j = i"
    using assms(3) nth_eq_iff_index_eq by blast
  then show "s ! i = t ! i" using eq by simp
qed

text \<open>On rows without a repeated date, a list of the same rows in the order of their dates
  is the result of \<open>sort_values\<close>: whichever way rows of equal dates are ordered, the sort
  has one possible result there.\<close>

lemma sort_values_unique:
  assumes "distinct (map fst rs)" and "set s = set rs" and "length s = length rs"
      and "sorted (map fst s)"
  shows "s = sort_values rs"
proof -
  have "distinct rs" and inj: "inj_on fst (set rs)" using assms(1) by (simp_all add: distinct_map)
  then have "card (set s) = length s" using assms(2,3) by (simp add: distinct_card)
  then have "distinct s" by (rule card_distinct)
  then have ds: "distinct (map fst s)" using inj assms(2) by (simp add: distinct_map)
  have "set (map fst s) = set (map fst (sort_values rs))"
    using assms(2) by (simp add: sort_values_set)
  moreover have "distinct (map fst (sort_values rs))"
    using assms(1) by (simp add: sort_values_distinct)
  ultimately have "map fst s = map fst (sort_values rs)"
    using assms(4) ds sort_values_sorted [of rs] by (metis sorted_distinct_set_unique)
  moreover have "set s = set (sort_values rs)" using assms(2) by (simp add: sort_values_set)
  ultimately show ?thesis using ds by (rule rows_determined_by_dates)
qed

subsection \<open>The pagination loop\<close>


lemma fetch_pages_Table_full:
  assumes "pages p = Table rows" and "full_page (pages p)"
  shows "fetch_pages pages p acc = fetch_pages pages (Suc p) (acc @ rows)"
proof -
  have "rows \<noteq> []" using assms by (auto simp: full_page_def per_page_def)
  then show ?thesis
    using assms by (subst fetch_pages.simps) (simp add: full_page_def)
qed

lemma full_page_Table: "full_page r \<Longrightarrow> r = Table (rows_of r)"
  by (cases r) (simp_all add: full_page_def per_page_def)

lemma fetch_pages_run:
  assumes "\<forall>i<k. full_page (pages (p + i))"
  shows "fetch_pages pages p acc
       = fetch_pages pages (p + k) (acc @ concat (map (\<lambda>q. rows_of (pages q)) [p..<p + k]))"
  using assms
proof (induction k arbitrary: p acc)
  case 0
  then show ?case by simp
next
  case (Suc k)
  have fp: "full_page (pages p)" using Suc.prems by (metis add.right_neutral zero_less_Suc)
  have rest: "\<forall>i<k. full_page (pages (Suc p + i))" using Suc.prems by (metis Suc_less_eq add_Suc_shift)
  have "fetch_pages pages p acc = fetch_pages pages (Suc p) (acc @ rows_of (pages p))"
    using fetch_pages_Table_full [of pages p "rows_of (pages p)" acc] full_page_Table [OF fp] fp by simp
  also have "\<dots> = fetch_pages pages (Suc p + k)
      ((acc @ rows_of (pages p)) @ concat (map (\<lambda>q. rows_of (pages q)) [Suc p..<Suc p + k]))"
    by (rule Suc.IH [OF rest])
  finally show ?case by (simp add: upt_conv_Cons del: upt_Suc)
qed

lemma fetch_pages_prefix:
  assumes "1 \<le> n" and "\<forall>p. 1 \<le> p \<and> p < n \<longrightarrow> full_page (pages p)"
  shows "fetch_pages pages 1 [] = fetch_pages pages n (accumulated pages (n - 1))"
proof -
  have "\<forall>i<n - 1. full_page (pages (1 + i))" using assms by auto
  from fetch_pages_run [OF this, of "[]"] show ?thesis
    using assms(1) by (simp add: accumulated_def)
qed

lemma accumulated_Suc: "accumulated pages (Suc n) = accumulated pages n @ rows_of (pages (Suc n))"
  by (simp add: accumulated_def)

lemma dropna_rows_page_row:
  assumes "\<forall>r\<in>set good. snd r \<noteq> NaN"
  shows "dropna_rows (map page_row good) = good"
  using assms
  by (induction good) (auto simp: dropna_rows_def page_row_def List.map_filter_simps)

lemma clean_up_page_rows:
  assumes "good \<noteq> []" and "distinct (map fst good)" and "\<forall>r\<in>set good. snd r \<noteq> NaN"
  shows "clean_up (map page_row good) = Inr (sort_values good)"
proof -
  have "drop_duplicates (sort_values good) = sort_values good"
    by (rule drop_duplicates_id) (simp add: sort_values_distinct assms(2))
  then show ?thesis
    using assms(1) by (simp add: clean_up_def dropna_rows_page_row [OF assms(3)] sort_values_Nil)
qed

lemma fetch_from_loop:
  "fetch_pages (remote fund_code) 1 [] = Some (Broke n all_data)
   \<Longrightarrow> fetch_fund_data_from_api remote fund_code start_date end_date = Some (n, clean_up all_data)"
  by (simp add: fetch_fund_data_from_api_def)

lemma fetch_pages_short:
  assumes "pages n = Table last_rows" and "length last_rows < per_page"
      and "\<not> list_all (\<lambda>q. fst q = None) last_rows"
  shows "fetch_pages pages n acc = Some (Broke n (acc @ last_rows))"
proof -
  have "last_rows \<noteq> []" using assms(3) by auto
  then show ?thesis using assms by (subst fetch_pages.simps) simp
qed

lemma fetch_pages_unparsable:
  assumes "pages n = Unparsable"
  shows "fetch_pages pages n acc = Some (if n = 1 then Aborted n else Broke n acc)"
  using assms by (subst fetch_pages.simps) simp

lemma sort_values_length: "length (sort_values rs) = length rs"
  by (simp add: sort_values_def)

lemma dropna_rows_append: "dropna_rows (a @ b) = dropna_rows a @ dropna_rows b"
  by (simp add: dropna_rows_def List.map_filter_def)

lemma dropna_rows_Nil: "dropna_rows [] = []"
  by (simp add: dropna_rows_def List.map_filter_simps)

lemma clean_up_rows:
  assumes "dropna_rows all_data \<noteq> []"
  shows "\<exists>s. clean_up all_data = Inr s \<and> sorted (map fst s) \<and> distinct (map fst s)
             \<and> set s \<subseteq> set (dropna_rows all_data)
             \<and> fst ` set s = fst ` set (dropna_rows all_data)"
proof -
  let ?v = "dropna_rows all_data"
  let ?s = "drop_duplicates (sort_values ?v)"
  have ne: "all_data \<noteq> []" using assms dropna_rows_Nil by auto
  have dates: "fst ` set ?s = fst ` set ?v"
    by (simp add: drop_duplicates_dates sort_values_set)
  have "set ?v \<noteq> {}" using assms by simp
  then have "fst ` set ?s \<noteq> {}" unfolding dates by simp
  then have "?s \<noteq> []" by auto
  then have "clean_up all_data = Inr ?s" using ne by (simp add: clean_up_def Let_def)
  moreover have "sorted (map fst ?s)"
    by (rule drop_duplicates_sorted) (rule sort_values_sorted)
  moreover have "distinct (map fst ?s)" by (rule drop_duplicates_distinct)
  moreover have "set ?s \<subseteq> set ?v"
    using drop_duplicates_subset [of "sort_values ?v"] by (simp add: sort_values_set)
  ultimately show ?thesis using dates by blast
qed

lemma fetch_rows:
  assumes "fetch_pages (remote fund_code) 1 [] = Some (Broke n all_data)"
      and "dropna_rows all_data \<noteq> []"
  shows "\<exists>s. fetch_fund_data_from_api remote fund_code start_date end_date = Some (n, Inr s)
             \<and> sorted (map fst s) \<and> distinct (map fst s)
             \<and> set s \<subseteq> set (dropna_rows all_data)
             \<and> fst ` set s = fst ` set (dropna_rows all_data)"
  using clean_up_rows [OF assms(2)]
    fetch_from_loop [of remote fund_code n all_data start_date end_date, OF assms(1)]
  by auto

lemma fetch_all_rows:
  assumes "fetch_pages (remote fund_code) 1 [] = Some (Broke n all_data)"
      and "all_data \<noteq> []"
      and "all_data = map page_row good" and "distinct (map fst good)"
      and "\<forall>r\<in>set good. snd r \<noteq> NaN"
  shows "fetch_fund_data_from_api remote fund_code start_date end_date
           = Some (n, Inr (sort_values good))
       \<and> set (sort_values good) = set good
       \<and> length (sort_values good) = length all_data"
proof -
  have "good \<noteq> []" using assms(2,3) by auto
  from clean_up_page_rows [OF this assms(4,5)] show ?thesis
    using fetch_from_loop [of remote fund_code n all_data start_date end_date, OF assms(1)] assms(3)
    by (simp add: sort_values_set sort_values_length)
qed

text \<open>
  Claim C5, as the code has it. When the pages before page \<open>n\<close> are tables of at least
  \<open>per_page\<close> rows and page \<open>n\<close> is a table of fewer rows, the loop requests the pages 1
  to \<open>n\<close> and stops there with the rows of all \<open>n\<close> pages accumulated. What the fetch
  returns is their clean-up, not the accumulated rows themselves: when at least one
  accumulated row has both a date and a value, the result is sorted by date, has no date
  twice, consists of accumulated rows that have a date and a value, and holds every date of
  such a row. When the accumulated rows all have a date and a value and no date twice, every
  one of them is returned, sorted by date. (A page counts here when at least one of its rows
  is dated; a page without any dated row ends the loop through the error handler.)
\<close>

theorem fetch_stops_after_short_page:
  assumes "1 \<le> n"
      and "\<forall>p. 1 \<le> p \<and> p < n \<longrightarrow> full_page (remote fund_code p)"
      and "remote fund_code n = Table last_rows"
      and "length last_rows < per_page"
      and "\<not> list_all (\<lambda>q. fst q = None) last_rows"
  shows "fetch_pages (remote fund_code) 1 [] = Some (Broke n (accumulated (remote fund_code) n))
       \<and> (dropna_rows (accumulated (remote fund_code) n) \<noteq> [] \<longrightarrow>
            (\<exists>s. fetch_fund_data_from_api remote fund_code start_date end_date = Some (n, Inr s)
                \<and> sorted (map fst s) \<and> distinct (map fst s)
                \<and> set s \<subseteq> set (dropna_rows (accumulated (remote fund_code) n))
                \<and> fst ` set s = fst ` set (dropna_rows (accumulated (remote fund_code) n))))
       \<and> (\<forall>good. accumulated (remote fund_code) n = map page_row good
                 \<and> distinct (map fst good) \<and> (\<forall>r\<in>set good. snd r \<noteq> NaN)
            \<longrightarrow> fetch_fund_data_from_api remote fund_code start_date end_date
                  = Some (n, Inr (sort_values good))
               \<and> set (sort_values good) = set good
               \<and> length (sort_values good) = length (accumulated (remote fund_code) n))"
proof -
  obtain m where n: "n = Suc m" using assms(1) by (cases n) auto
  have acc: "accumulated (remote fund_code) n = accumulated (remote fund_code) (n - 1) @ last_rows"
    using assms(3) by (simp add: n accumulated_Suc)
  have loop: "fetch_pages (remote fund_code) 1 [] = Some (Broke n (accumulated (remote fund_code) n))"
    using fetch_pages_prefix [OF assms(1,2)]
      fetch_pages_short [of "remote fund_code" n last_rows, OF assms(3,4,5)] acc by simp
  have "last_rows \<noteq> []" using assms(5) by auto
  then have ne: "accumulated (remote fund_code) n \<noteq> []" using acc by simp
  have valid: "\<exists>s. fetch_fund_data_from_api remote fund_code start_date end_date = Some (n, Inr s)
                \<and> sorted (map fst s) \<and> distinct (map fst s)
                \<and> set s \<subseteq> set (dropna_rows (accumulated (remote fund_code) n))
                \<and> fst ` set s = fst ` set (dropna_rows (accumulated (remote fund_code) n))"
    if "dropna_rows (accumulated (remote fund_code) n) \<noteq> []"
    by (rule fetch_rows [of remote fund_code, OF loop that])
  have all: "fetch_fund_data_from_api remote fund_code start_date end_date = Some (n, Inr (sort_values good))
        \<and> set (sort_values good) = set good
        \<and> length (sort_values good) = length (accumulated (remote fund_code) n)"
    if "accumulated (remote fund_code) n = map page_row good \<and> distinct (map fst good)
          \<and> (\<forall>r\<in>set good. snd r \<noteq> NaN)" for good
    using fetch_all_rows [of remote fund_code, OF loop ne, of good start_date end_date] that by blast
  show ?thesis using loop valid all by blast
qed

text \<open>
  Claim C6, as the code has it. When the first page cannot be parsed, the fetch returns the
  empty series after one request, and \<open>get_fund_data\<close> on a fund without cache returns the
  empty series (it does not raise, and nothing is cached). When the pages before page
  \<open>n > 1\<close> are full tables and page \<open>n\<close> cannot be parsed, the loop stops with the rows
  of the pages 1 to \<open>n - 1\<close>. What the fetch returns is their clean-up: when at least one
  of them has both a date and a value, the result is sorted by date, has no date twice,
  consists of accumulated rows that have a date and a value, and holds every date of such a
  row; all of them are returned when they are dated, valued and without a repeated date.
\<close>

theorem fetch_parse_failure:
  "(remote fund_code 1 = Unparsable \<longrightarrow>
       fetch_fund_data_from_api remote fund_code start_date end_date = Some (1, Inr [])
     \<and> (cache w fund_code = None \<longrightarrow>
          get_fund_data remote now fund_code end_day fill_missing w
            = Some ([], w\<lparr>requests := requests w + 1\<rparr>)))
   \<and> (1 < n \<and> (\<forall>p. 1 \<le> p \<and> p < n \<longrightarrow> full_page (remote fund_code p))
         \<and> remote fund_code n = Unparsable \<longrightarrow>
       fetch_pages (remote fund_code) 1 [] = Some (Broke n (accumulated (remote fund_code) (n - 1)))
     \<and> (dropna_rows (accumulated (remote fund_code) (n - 1)) \<noteq> [] \<longrightarrow>
          (\<exists>s. fetch_fund_data_from_api remote fund_code start_date end_date = Some (n, Inr s)
              \<and> sorted (map fst s) \<and> distinct (map fst s)
              \<and> set s \<subseteq> set (dropna_rows (accumulated (remote fund_code) (n - 1)))
              \<and> fst ` set s = fst ` set (dropna_rows (accumulated (remote fund_code) (n - 1)))))
     \<and> (\<forall>good. accumulated (remote fund_code) (n - 1) = map page_row good
               \<and> distinct (map fst good) \<and> (\<forall>r\<in>set good. snd r \<noteq> NaN)
          \<longrightarrow> fetch_fund_data_from_api remote fund_code start_date end_date
                = Some (n, Inr (sort_values good))
             \<and> set (sort_values good) = set good
             \<and> length (sort_values good) = length (accumulated (remote fund_code) (n - 1))))"
proof (intro conjI impI)
  assume u: "remote fund_code 1 = Unparsable"
  show first: "fetch_fund_data_from_api remote fund_code start_date end_date = Some (1, Inr [])"
    using fetch_pages_unparsable [of "remote fund_code" 1 "[]", OF u]
    by (simp add: fetch_fund_data_from_api_def)
  assume "cache w fund_code = None"
  moreover have "fetch_fund_data_from_api remote fund_code None None = Some (1, Inr [])"
    using fetch_pages_unparsable [of "remote fund_code" 1 "[]", OF u]
    by (simp add: fetch_fund_data_from_api_def)
  ultimately show "get_fund_data remote now fund_code end_day fill_missing w
            = Some ([], w\<lparr>requests := requests w + 1\<rparr>)"
    by (simp add: get_fund_data_def get_cached_fund_data_def fill_step_def)
next
  assume a: "1 < n \<and> (\<forall>p. 1 \<le> p \<and> p < n \<longrightarrow> full_page (remote fund_code p))
         \<and> remote fund_code n = Unparsable"
  then have n1: "1 \<le> n" and full: "\<forall>p. 1 \<le> p \<and> p < n \<longrightarrow> full_page (remote fund_code p)"
    and u: "remote fund_code n = Unparsable" and n: "n \<noteq> 1" by auto
  show loop: "fetch_pages (remote fund_code) 1 [] = Some (Broke n (accumulated (remote fund_code) (n - 1)))"
    using fetch_pages_prefix [OF n1 full] fetch_pages_unparsable [of "remote fund_code" n, OF u] n
    by simp
  have "full_page (remote fund_code 1)" using a by simp
  then have "rows_of (remote fund_code 1) \<noteq> []" by (auto simp: full_page_def per_page_def)
  moreover have "0 < n - 1" using a by simp
  then obtain m where "n - 1 = Suc m" by (metis gr0_implies_Suc)
  ultimately have ne: "accumulated (remote fund_code) (n - 1) \<noteq> []"
    by (simp add: accumulated_def upt_conv_Cons del: upt_Suc)
  show "\<exists>s. fetch_fund_data_from_api remote fund_code start_date end_date = Some (n, Inr s)
              \<and> sorted (map fst s) \<and> distinct (map fst s)
              \<and> set s \<subseteq> set (dropna_rows (accumulated (remote fund_code) (n - 1)))
              \<and> fst ` set s = fst ` set (dropna_rows (accumulated (remote fund_code) (n - 1)))"
    if "dropna_rows (accumulated (remote fund_code) (n - 1)) \<noteq> []"
    by (rule fetch_rows [of remote fund_code, OF loop that])
  show "\<forall>good. accumulated (remote fund_code) (n - 1) = map page_row good
               \<and> distinct (map fst good) \<and> (\<forall>r\<in>set good. snd r \<noteq> NaN)
          \<longrightarrow> fetch_fund_data_from_api remote fund_code start_date end_date
                = Some (n, Inr (sort_values good))
             \<and> set (sort_values good) = set good
             \<and> length (sort_values good) = length (accumulated (remote fund_code) (n - 1))"
    using fetch_all_rows [of remote fund_code, OF loop ne, of _ start_date end_date] by blast
qed

lemma example_rows_append:
  "lo \<le> mid \<Longrightarrow> mid \<le> hi \<Longrightarrow> example_rows lo mid @ example_rows mid hi = example_rows lo hi"
  unfolding example_rows_def map_append [symmetric]
  by (metis le_Suc_ex upt_add_eq_append)

lemma example_rows_length: "length (example_rows lo hi) = hi - lo"
  by (simp add: example_rows_def)

lemma example_rows_dated: "lo < hi \<Longrightarrow> \<not> list_all (\<lambda>q. fst q = None) (example_rows lo hi)"
  by (auto simp: example_rows_def list_all_iff)

lemma example_series_rows: "map page_row (example_series n) = example_rows 0 n"
  by (simp add: example_series_def example_rows_def page_row_def)

lemma example_series_distinct: "distinct (map fst (example_series n))"
  by (simp add: example_series_def distinct_map comp_def inj_on_def)

lemma example_series_present: "\<forall>r\<in>set (example_series n). snd r \<noteq> NaN"
  by (auto simp: example_series_def)

lemma four_pages_accumulated: "accumulated (four_pages c) 4 = example_rows 0 75"
proof -
  have "[1..<Suc 4] = [1, 2, 3, 4]" by (simp add: upt_conv_Cons del: upt_Suc)
  then have "accumulated (four_pages c) 4
    = ((example_rows 0 20 @ example_rows 20 40) @ example_rows 40 60) @ example_rows 60 75"
    by (simp add: accumulated_def four_pages_def)
  then show ?thesis by (simp only: example_rows_append)
qed

lemma clean_up_valid:
  assumes "dropna_rows all_data = good" and "good \<noteq> []" and "distinct (map fst good)"
  shows "clean_up all_data = Inr (sort_values good)"
proof -
  have "all_data \<noteq> []" using assms(1,2) dropna_rows_Nil by auto
  moreover have "drop_duplicates (sort_values good) = sort_values good"
    by (rule drop_duplicates_id) (simp add: sort_values_distinct assms(3))
  ultimately show ?thesis using assms(1,2) by (simp add: clean_up_def sort_values_Nil)
qed

lemma dropna_rows_gap:
  "dropna_rows (example_rows 0 k @ [(Some d, NaN)]) = example_series k"
proof -
  have "dropna_rows (example_rows 0 k) = example_series k"
    using dropna_rows_page_row [OF example_series_present, of k] by (simp add: example_series_rows)
  moreover have "dropna_rows [(Some d, NaN)] = []"
    by (simp add: dropna_rows_def List.map_filter_simps)
  ultimately show ?thesis by (simp add: dropna_rows_append)
qed

lemma example_series_length: "length (example_series n) = n"
  by (simp add: example_series_def)

lemma four_pages_gap_full: "\<forall>p. 1 \<le> p \<and> p < 4 \<longrightarrow> full_page (four_pages_gap c p)"
proof (intro allI impI)
  fix p :: nat assume "1 \<le> p \<and> p < 4"
  then have "p = 1 \<or> p = 2 \<or> p = 3" by auto
  then show "full_page (four_pages_gap c p)"
    by (auto simp: full_page_def four_pages_gap_def per_page_def example_rows_length example_rows_dated)
qed

lemma four_pages_gap_loop:
  "fetch_pages (four_pages_gap c) 1 [] = Some (Broke 4 (example_rows 0 74 @ [(Some 926, NaN)]))"
proof -
  note full = four_pages_gap_full [of c]
  have "[1..<Suc 3] = [1, 2, 3]" by (simp add: upt_conv_Cons del: upt_Suc)
  then have "accumulated (four_pages_gap c) 3
      = (example_rows 0 20 @ example_rows 20 40) @ example_rows 40 60"
    by (simp add: accumulated_def four_pages_gap_def)
  then have acc: "accumulated (four_pages_gap c) (4 - 1) = example_rows 0 60"
    by (simp add: example_rows_append)
  have short: "fetch_pages (four_pages_gap c) 4 (example_rows 0 60)
      = Some (Broke 4 (example_rows 0 60 @ (example_rows 60 74 @ [(Some 926, NaN)])))"
    by (rule fetch_pages_short)
       (simp_all add: four_pages_gap_def per_page_def example_rows_length example_rows_def)
  have "fetch_pages (four_pages_gap c) 1 [] = fetch_pages (four_pages_gap c) 4 (example_rows 0 60)"
    using fetch_pages_prefix [of 4 "four_pages_gap c", OF _ full] acc by simp
  then show ?thesis using short by (simp add: example_rows_append [symmetric, of 0 60 74])
qed

lemma four_pages_gap_fetch:
  "fetch_fund_data_from_api four_pages_gap c start_date end_date
   = Some (4, Inr (sort_values (example_series 74)))"
proof -
  have "clean_up (example_rows 0 74 @ [(Some 926, NaN)]) = Inr (sort_values (example_series 74))"
    by (rule clean_up_valid [OF dropna_rows_gap _ example_series_distinct])
       (simp add: example_series_def)
  then show ?thesis
    using fetch_from_loop [of four_pages_gap c 4 _ start_date end_date, OF four_pages_gap_loop]
    by simp
qed

lemma gap_then_garbage_full: "\<forall>p. 1 \<le> p \<and> p < 2 \<longrightarrow> full_page (gap_then_garbage c p)"
proof (intro allI impI)
  fix p :: nat assume "1 \<le> p \<and> p < 2"
  then have "p = 1" by auto
  then show "full_page (gap_then_garbage c p)"
    by (simp add: full_page_def gap_then_garbage_def per_page_def example_rows_length example_rows_def)
qed

lemma gap_then_garbage_accumulated:
  "accumulated (gap_then_garbage c) (2 - 1) = example_rows 0 19 @ [(Some 981, NaN)]"
  by (simp add: accumulated_def gap_then_garbage_def)

lemma gap_then_garbage_loop:
  "fetch_pages (gap_then_garbage c) 1 [] = Some (Broke 2 (example_rows 0 19 @ [(Some 981, NaN)]))"
proof -
  note full = gap_then_garbage_full [of c]
  note acc = gap_then_garbage_accumulated [of c]
  have "gap_then_garbage c 2 = Unparsable" by (simp add: gap_then_garbage_def)
  from fetch_pages_unparsable [of "gap_then_garbage c" 2, OF this]
  show ?thesis using fetch_pages_prefix [of 2 "gap_then_garbage c", OF _ full] acc by simp
qed

lemma gap_then_garbage_fetch:
  "fetch_fund_data_from_api gap_then_garbage c start_date end_date
   = Some (2, Inr (sort_values (example_series 19)))"
proof -
  have "clean_up (example_rows 0 19 @ [(Some 981, NaN)]) = Inr (sort_values (example_series 19))"
    by (rule clean_up_valid [OF dropna_rows_gap _ example_series_distinct])
       (simp add: example_series_def)
  then show ?thesis
    using fetch_from_loop [of gap_then_garbage c 2 _ start_date end_date, OF gap_then_garbage_loop]
    by simp
qed

text \<open>Pages of 20, 20, 20 and 15 rows: the loop stops after the fourth page and all 75
  rows are returned. With a row without a value on the fourth page, the dates returned are
  those of the 74 other rows.\<close>

theorem fetch_stops_after_short_page_witness:
  "fetch_pages (four_pages ''000001'') 1 [] = Some (Broke 4 (example_rows 0 75))
   \<and> fetch_fund_data_from_api four_pages ''000001'' None None
        = Some (4, Inr (sort_values (example_series 75)))
   \<and> set (sort_values (example_series 75)) = set (example_series 75)
   \<and> length (sort_values (example_series 75)) = 75
   \<and> fetch_fund_data_from_api four_pages_gap ''000001'' None None
        = Some (4, Inr (sort_values (example_series 74)))
   \<and> fst ` set (sort_values (example_series 74))
        = fst ` set (dropna_rows (example_rows 0 74 @ [(Some 926, NaN)]))"
proof -
  have h1: "1 \<le> (4::nat)" by simp
  have h2: "\<forall>p. 1 \<le> p \<and> p < 4 \<longrightarrow> full_page (four_pages ''000001'' p)"
  proof (intro allI impI)
    fix p :: nat assume "1 \<le> p \<and> p < 4"
    then have "p = 1 \<or> p = 2 \<or> p = 3" by auto
    then show "full_page (four_pages ''000001'' p)"
      by (auto simp: full_page_def four_pages_def per_page_def example_rows_length example_rows_dated)
  qed
  have h3: "four_pages ''000001'' 4 = Table (example_rows 60 75)" by (simp add: four_pages_def)
  have h4: "length (example_rows 60 75) < per_page" by (simp add: example_rows_length per_page_def)
  have h5: "\<not> list_all (\<lambda>q. fst q = None) (example_rows 60 75)" by (simp add: example_rows_dated)
  note th = fetch_stops_after_short_page [of 4 four_pages "''000001''" "example_rows 60 75" None None,
      OF h1 h2 h3 h4 h5]
  have g: "accumulated (four_pages ''000001'') 4 = map page_row (example_series 75)
           \<and> distinct (map fst (example_series 75)) \<and> (\<forall>r\<in>set (example_series 75). snd r \<noteq> NaN)"
    using example_series_present [of 75]
    by (simp only: four_pages_accumulated example_series_rows example_series_distinct simp_thms)
  from th g have "fetch_fund_data_from_api four_pages ''000001'' None None
                  = Some (4, Inr (sort_values (example_series 75)))
               \<and> set (sort_values (example_series 75)) = set (example_series 75)
               \<and> length (sort_values (example_series 75)) = length (accumulated (four_pages ''000001'') 4)"
    by blast
  moreover have "length (accumulated (four_pages ''000001'') 4) = 75"
    by (simp add: four_pages_accumulated example_rows_length)
  moreover have "fetch_pages (four_pages ''000001'') 1 [] = Some (Broke 4 (example_rows 0 75))"
    using th by (simp only: four_pages_accumulated)
  ultimately have first: "fetch_pages (four_pages ''000001'') 1 [] = Some (Broke 4 (example_rows 0 75))
   \<and> fetch_fund_data_from_api four_pages ''000001'' None None
        = Some (4, Inr (sort_values (example_series 75)))
   \<and> set (sort_values (example_series 75)) = set (example_series 75)
   \<and> length (sort_values (example_series 75)) = 75" by simp
  have k3: "four_pages_gap ''000001'' 4 = Table (example_rows 60 74 @ [(Some 926, NaN)])"
    by (simp add: four_pages_gap_def)
  have k4: "length (example_rows 60 74 @ [(Some 926, NaN)]) < per_page"
    by (simp add: example_rows_length per_page_def)
  have k5: "\<not> list_all (\<lambda>q. fst q = None) (example_rows 60 74 @ [(Some 926, NaN)])"
    by simp
  note gap = fetch_stops_after_short_page [of 4 four_pages_gap "''000001''"
      "example_rows 60 74 @ [(Some 926, NaN)]" None None, OF h1 four_pages_gap_full k3 k4 k5]
  have run: "Some (Broke 4 (accumulated (four_pages_gap ''000001'') 4))
      = Some (Broke 4 (example_rows 0 74 @ [(Some 926, NaN)]))"
    using gap four_pages_gap_loop [of "''000001''"] by simp
  then have acc: "accumulated (four_pages_gap ''000001'') 4 = example_rows 0 74 @ [(Some 926, NaN)]"
    by simp
  have "dropna_rows (accumulated (four_pages_gap ''000001'') 4) \<noteq> []"
    unfolding acc dropna_rows_gap by (simp add: example_series_def)
  with gap obtain s where
    s: "fetch_fund_data_from_api four_pages_gap ''000001'' None None = Some (4, Inr s)"
    and d: "fst ` set s = fst ` set (dropna_rows (accumulated (four_pages_gap ''000001'') 4))"
    by blast
  from s have "s = sort_values (example_series 74)"
    unfolding four_pages_gap_fetch by simp
  with s d acc have second: "fetch_fund_data_from_api four_pages_gap ''000001'' None None
        = Some (4, Inr (sort_values (example_series 74)))
   \<and> fst ` set (sort_values (example_series 74))
        = fst ` set (dropna_rows (example_rows 0 74 @ [(Some 926, NaN)]))"
    by simp
  from first second show ?thesis by (intro conjI) blast+
qed

text \<open>
  Against C5 as stated: pages of 20, 20, 20 and 15 rows, the last row of the fourth page
  without a value. The loop stops after the fourth page with 75 rows accumulated, and the
  fetch returns 74 rows.
\<close>

theorem fetch_drops_rows_counterexample:
  "length (rows_of (four_pages_gap ''000001'' 1)) = 20
   \<and> length (rows_of (four_pages_gap ''000001'' 2)) = 20
   \<and> length (rows_of (four_pages_gap ''000001'' 3)) = 20
   \<and> length (rows_of (four_pages_gap ''000001'' 4)) = 15
   \<and> fetch_pages (four_pages_gap ''000001'') 1 []
       = Some (Broke 4 (example_rows 0 74 @ [(Some 926, NaN)]))
   \<and> length (example_rows 0 74 @ [(Some 926, NaN)]) = 75
   \<and> fetch_fund_data_from_api four_pages_gap ''000001'' None None
       = Some (4, Inr (sort_values (example_series 74)))
   \<and> length (sort_values (example_series 74)) = 74"
  using four_pages_gap_loop [of "''000001''"] four_pages_gap_fetch [of "''000001''" None None]
  by (simp add: four_pages_gap_def example_rows_length sort_values_length example_series_length)

text \<open>A remote on which nothing parses, a remote whose first page has 20 rows and whose
  second page does not parse, and the same with a row without a value on the first page.\<close>

theorem fetch_parse_failure_witness:
  "fetch_fund_data_from_api (\<lambda>fund_code page. Unparsable) ''000001'' None None = Some (1, Inr [])
   \<and> get_fund_data (\<lambda>fund_code page. Unparsable) 0 ''000001'' None True
         \<lparr>cache = Map.empty, requests = 0\<rparr>
       = Some ([], \<lparr>cache = Map.empty, requests = 1\<rparr>)
   \<and> fetch_pages (page_then_garbage ''000001'') 1 [] = Some (Broke 2 (example_rows 0 20))
   \<and> fetch_fund_data_from_api page_then_garbage ''000001'' None None
        = Some (2, Inr (sort_values (example_series 20)))
   \<and> length (sort_values (example_series 20)) = 20
   \<and> fetch_fund_data_from_api gap_then_garbage ''000001'' None None
        = Some (2, Inr (sort_values (example_series 19)))
   \<and> fst ` set (sort_values (example_series 19))
        = fst ` set (dropna_rows (example_rows 0 19 @ [(Some 981, NaN)]))"
proof -
  let ?w = "\<lparr>cache = Map.empty, requests = 0\<rparr>"
  note first = fetch_parse_failure [of "\<lambda>fund_code page. Unparsable" "''000001''" None None ?w 0 None True 2,
      THEN conjunct1]
  have a: "fetch_fund_data_from_api (\<lambda>fund_code page. Unparsable) ''000001'' None None = Some (1, Inr [])"
    using first by simp
  have b: "get_fund_data (\<lambda>fund_code page. Unparsable) 0 ''000001'' None True ?w
       = Some ([], \<lparr>cache = Map.empty, requests = 1\<rparr>)"
    using first by simp
  have acc: "accumulated (page_then_garbage ''000001'') (2 - 1) = example_rows 0 20"
    by (simp add: accumulated_def page_then_garbage_def)
  have h: "1 < (2::nat) \<and> (\<forall>p. 1 \<le> p \<and> p < 2 \<longrightarrow> full_page (page_then_garbage ''000001'' p))
         \<and> page_then_garbage ''000001'' 2 = Unparsable"
  proof (intro conjI allI impI)
    fix p :: nat assume "1 \<le> p \<and> p < 2"
    then have "p = 1" by auto
    then show "full_page (page_then_garbage ''000001'' p)"
      by (simp add: full_page_def page_then_garbage_def per_page_def example_rows_length example_rows_dated)
  qed (simp_all add: page_then_garbage_def)
  note later = fetch_parse_failure [of page_then_garbage "''000001''" None None ?w 0 None True 2,
      THEN conjunct2, rule_format, OF h]
  have g: "accumulated (page_then_garbage ''000001'') (2 - 1) = map page_row (example_series 20)
           \<and> distinct (map fst (example_series 20)) \<and> (\<forall>r\<in>set (example_series 20). snd r \<noteq> NaN)"
    using example_series_present [of 20]
    by (simp only: acc example_series_rows example_series_distinct simp_thms)
  have c: "fetch_pages (page_then_garbage ''000001'') 1 [] = Some (Broke 2 (example_rows 0 20))"
    using later acc by simp
  have d: "fetch_fund_data_from_api page_then_garbage ''000001'' None None
        = Some (2, Inr (sort_values (example_series 20)))"
    using later g by blast
  have e: "length (sort_values (example_series 20)) = 20"
    by (simp add: sort_values_length example_series_def)
  have k: "1 < (2::nat) \<and> (\<forall>p. 1 \<le> p \<and> p < 2 \<longrightarrow> full_page (gap_then_garbage ''000001'' p))
         \<and> gap_then_garbage ''000001'' 2 = Unparsable"
    using gap_then_garbage_full [of "''000001''"] by (simp add: gap_then_garbage_def)
  note gap = fetch_parse_failure [of gap_then_garbage "''000001''" None None ?w 0 None True 2,
      THEN conjunct2, rule_format, OF k]
  note acc' = gap_then_garbage_accumulated [of "''000001''"]
  have "dropna_rows (accumulated (gap_then_garbage ''000001'') (2 - 1)) \<noteq> []"
    unfolding acc' dropna_rows_gap by (simp add: example_series_def)
  with gap obtain s where
    s: "fetch_fund_data_from_api gap_then_garbage ''000001'' None None = Some (2, Inr s)"
    and ds: "fst ` set s = fst ` set (dropna_rows (accumulated (gap_then_garbage ''000001'') (2 - 1)))"
    by blast
  from s have "s = sort_values (example_series 19)"
    unfolding gap_then_garbage_fetch by simp
  with s ds acc' have f: "fetch_fund_data_from_api gap_then_garbage ''000001'' None None
        = Some (2, Inr (sort_values (example_series 19)))
   \<and> fst ` set (sort_values (example_series 19))
        = fst ` set (dropna_rows (example_rows 0 19 @ [(Some 981, NaN)]))"
    by simp
  from a b c d e f show ?thesis by (intro conjI) blast+
qed

text \<open>
  Against C6 as stated: the first page has 20 rows, one of them without a value, and the
  second page cannot be parsed. The loop stops with 20 rows accumulated, and the fetch
  returns 19 rows.
\<close>

theorem later_page_failure_counterexample:
  "full_page (gap_then_garbage ''000001'' 1)
   \<and> gap_then_garbage ''000001'' 2 = Unparsable
   \<and> fetch_pages (gap_then_garbage ''000001'') 1 []
       = Some (Broke 2 (example_rows 0 19 @ [(Some 981, NaN)]))
   \<and> length (example_rows 0 19 @ [(Some 981, NaN)]) = 20
   \<and> fetch_fund_data_from_api gap_then_garbage ''000001'' None None
       = Some (2, Inr (sort_values (example_series 19)))
   \<and> length (sort_values (example_series 19)) = 19"
  using gap_then_garbage_loop [of "''000001''"] gap_then_garbage_fetch [of "''000001''" None None]
  by (simp add: gap_then_garbage_def full_page_def per_page_def example_rows_length
      example_rows_def sort_values_length example_series_length)

subsection \<open>The orchestrator, case by case\<close>

lemma fetch_dates_unused:
  "fetch_fund_data_from_api remote fund_code start_date end_date
   = fetch_fund_data_from_api remote fund_code start_date' end_date'"
  by (simp add: fetch_fund_data_from_api_def)


lemma get_fund_data_stored:
  assumes "cache w fund_code = Some (Stored e)"
  shows "get_fund_data remote now fund_code end_date fill_missing w =
     (if date_of (last_update e) = date_of now then Some (series e, w)
      else if series e = [] then Some ([], w)
      else if Max (set (map fst (series e))) < (case end_date of None \<Rightarrow> date_of now | Some d \<Rightarrow> d)
      then (case fetch_fund_data_from_api remote fund_code None None of
              None \<Rightarrow> None
            | Some (n, Inl err) \<Rightarrow> Some ([], w\<lparr>requests := requests w + n\<rparr>)
            | Some (n, Inr new_data) \<Rightarrow>
                if new_data \<noteq> [] then
                  Some (fill_step fill_missing (sort_values (drop_duplicates (series e @ new_data))),
                        save_fund_data_to_cache now fund_code
                          (sort_values (drop_duplicates (series e @ new_data)))
                          (w\<lparr>requests := requests w + n\<rparr>))
                else Some (fill_step fill_missing (series e), w\<lparr>requests := requests w + n\<rparr>))
      else Some (fill_step fill_missing (series e), w))"
proof -
  note f = fetch_dates_unused [of remote fund_code "Some (Max (set (map fst (series e))) + 1)"
      "Some (case end_date of None \<Rightarrow> date_of now | Some d \<Rightarrow> d)" None None]
  show ?thesis
    unfolding get_fund_data_def get_cached_fund_data_def Let_def
    by (simp only: assms option.case cache_files.case prod.case f)
qed

lemma get_fund_data_same_day:
  assumes "cache w fund_code = Some (Stored e)" and "date_of (last_update e) = date_of now"
  shows "get_fund_data remote now fund_code end_date fill_missing w = Some (series e, w)"
  using assms(2) by (simp only: get_fund_data_stored [OF assms(1)] if_True simp_thms)


lemma get_fund_data_stale_fetch:
  assumes "cache w fund_code = Some (Stored e)" and "date_of (last_update e) \<noteq> date_of now"
      and "series e \<noteq> []"
      and "Max (set (map fst (series e))) < (case end_date of None \<Rightarrow> date_of now | Some d \<Rightarrow> d)"
  shows "get_fund_data remote now fund_code end_date fill_missing w =
     (case fetch_fund_data_from_api remote fund_code None None of
        None \<Rightarrow> None
      | Some (n, Inl err) \<Rightarrow> Some ([], w\<lparr>requests := requests w + n\<rparr>)
      | Some (n, Inr new_data) \<Rightarrow>
          if new_data \<noteq> [] then
            Some (fill_step fill_missing (sort_values (drop_duplicates (series e @ new_data))),
                  save_fund_data_to_cache now fund_code
                    (sort_values (drop_duplicates (series e @ new_data)))
                    (w\<lparr>requests := requests w + n\<rparr>))
          else Some (fill_step fill_missing (series e), w\<lparr>requests := requests w + n\<rparr>))"
  using assms(2,3,4) by (simp only: get_fund_data_stored [OF assms(1)] if_True if_False)

lemma get_fund_data_no_cache:
  assumes "cache w fund_code = None"
  shows "get_fund_data remote now fund_code end_date fill_missing w =
     (case fetch_fund_data_from_api remote fund_code None None of
        None \<Rightarrow> None
      | Some (n, Inl err) \<Rightarrow> Some ([], w\<lparr>requests := requests w + n\<rparr>)
      | Some (n, Inr df) \<Rightarrow>
          Some (fill_step fill_missing df,
                if df \<noteq> [] then save_fund_data_to_cache now fund_code df (w\<lparr>requests := requests w + n\<rparr>)
                else w\<lparr>requests := requests w + n\<rparr>))"
  unfolding get_fund_data_def get_cached_fund_data_def Let_def
  by (simp only: assms option.case prod.case)

lemma get_fund_data_corrupt:
  assumes "cache w fund_code = Some Corrupt"
  shows "get_fund_data remote now fund_code end_date fill_missing w
       = get_fund_data remote now fund_code end_date fill_missing (w\<lparr>cache := (cache w)(fund_code := None)\<rparr>)"
  using assms
  by (simp add: get_fund_data_def get_cached_fund_data_def Let_def)

lemma save_requests: "requests (save_fund_data_to_cache now fund_code df w) = requests w"
  by (simp add: save_fund_data_to_cache_def split: option.splits cache_files.splits)


lemma revised_remote_fetch:
  "fetch_fund_data_from_api revised_remote fund_code start_date end_date
   = Some (1, Inr [(1, Fin 2), (2, Fin 3), (3, Fin 4)])"
proof -
  have "fetch_pages (revised_remote fund_code) 1 []
      = Some (Broke 1 [(Some 3, Fin 4), (Some 2, Fin 3), (Some 1, Fin 2)])"
    by (subst fetch_pages.simps) (simp add: revised_remote_def per_page_def)
  then show ?thesis
    by (simp add: fetch_fund_data_from_api_def clean_up_def dropna_rows_def
        List.map_filter_simps sort_values_def)
qed

lemma stale_world_entry:
  "cache stale_world ''000001'' = Some (Stored \<lparr>series = [(1, Fin 1), (2, Fin 2)],
       last_update = 86400 + 3600, data_count = 2, range_start = 1, range_end = 2\<rparr>)"
  by (simp add: stale_world_def)

lemma fresh_world_entry:
  "cache fresh_world ''000001'' = Some (Stored \<lparr>series = friday_monday,
       last_update = 8 * 86400 + 3600, data_count = 2, range_start = 4, range_end = 7\<rparr>)"
  by (simp add: fresh_world_def)

lemma stale_world_update:
  "get_fund_data revised_remote (3 * 86400) ''000001'' None False stale_world
   = Some ([(1, Fin 1), (2, Fin 2), (3, Fin 4)],
       \<lparr>cache = [''000001'' \<mapsto> Stored \<lparr>series = [(1, Fin 1), (2, Fin 2), (3, Fin 4)],
            last_update = 3 * 86400, data_count = 3, range_start = 1, range_end = 3\<rparr>],
        requests = 1\<rparr>)"
proof -
  let ?e = "\<lparr>series = [(1, Fin 1), (2, Fin 2)], last_update = 86400 + 3600, data_count = 2,
             range_start = 1, range_end = 2\<rparr> :: cache_entry"
  have a: "date_of (last_update ?e) \<noteq> date_of (3 * 86400)" by (simp add: date_of_def)
  have b: "series ?e \<noteq> []" by simp
  have c: "Max (set (map fst (series ?e))) < (case None of None \<Rightarrow> date_of (3 * 86400) | Some d \<Rightarrow> d)"
    by (simp add: date_of_def)
  show ?thesis
    unfolding get_fund_data_stale_fetch [OF stale_world_entry a b c] revised_remote_fetch
    by (simp add: fill_step_def sort_values_def save_fund_data_to_cache_def stale_world_def numeral_3_eq_3)
qed



text \<open>
  Claim C10. When the cache entry of the fund was updated on the current calendar date,
  \<open>get_fund_data\<close> with \<open>fill_missing = True\<close> returns the stored series exactly as
  stored and changes nothing: the calendar-day fill is not applied, so a day that is absent
  from the stored series is absent from the result.
\<close>

theorem get_fund_data_same_day_unfilled:
  assumes "cache w fund_code = Some (Stored e)" and "date_of (last_update e) = date_of now"
  shows "get_fund_data remote now fund_code end_date True w = Some (series e, w)"
  by (rule get_fund_data_same_day [OF assms])

text \<open>The stored series holds days 4 and 7; days 5 and 6 are not in the result.\<close>

theorem get_fund_data_same_day_unfilled_witness:
  "get_fund_data revised_remote (8 * 86400 + 7200) ''000001'' None True fresh_world
     = Some ([(4, Fin 1), (7, Fin (11 / 10))], fresh_world)
   \<and> 5 \<notin> fst ` set [(4 :: date, Fin 1), (7, Fin (11 / 10))]
   \<and> 6 \<notin> fst ` set [(4 :: date, Fin 1), (7, Fin (11 / 10))]"
proof -
  have "date_of (last_update \<lparr>series = friday_monday, last_update = 8 * 86400 + 3600,
       data_count = 2, range_start = 4, range_end = 7\<rparr>) = date_of (8 * 86400 + 7200)"
    by (simp add: date_of_def)
  from get_fund_data_same_day_unfilled [OF fresh_world_entry this, of revised_remote None]
  show ?thesis by (simp add: friday_monday_def)
qed

text \<open>
  Claim C3 at a failing input. The cache was updated today and holds days 4 and 7.
  \<open>get_fund_data\<close> with \<open>fill_missing = True\<close> returns these two rows; the fill step,
  which every other path applies, would have produced the four days 4 to 7 with days 5 and 6
  carrying the value of day 4.
\<close>

theorem fill_skipped_on_same_day_cache:
  "get_fund_data revised_remote (8 * 86400 + 7200) ''000001'' None True fresh_world
     = Some ([(4, Fin 1), (7, Fin (11 / 10))], fresh_world)
   \<and> fill_step True [(4, Fin 1), (7, Fin (11 / 10))]
     = [(4, Fin 1), (5, Fin 1), (6, Fin 1), (7, Fin (11 / 10))]"
proof
  have "date_of (last_update \<lparr>series = friday_monday, last_update = 8 * 86400 + 3600,
       data_count = 2, range_start = 4, range_end = 7\<rparr>) = date_of (8 * 86400 + 7200)"
    by (simp add: date_of_def)
  from get_fund_data_same_day [OF fresh_world_entry this, of revised_remote None True]
  show "get_fund_data revised_remote (8 * 86400 + 7200) ''000001'' None True fresh_world
     = Some ([(4, Fin 1), (7, Fin (11 / 10))], fresh_world)"
    by (simp add: friday_monday_def)
  have "[4..7] = [4, 5, 6, 7::int]" by (simp add: upto_rec_numeral)
  then show "fill_step True [(4, Fin 1), (7, Fin (11 / 10))]
     = [(4, Fin 1), (5, Fin 1), (6, Fin 1), (7, Fin (11 / 10))]"
    by (simp add: fill_step_def fill_missing_days_def ffill_def)
qed

lemma merged_map_of:
  "map_of (sort_values (drop_duplicates (cached @ new_data))) = map_of new_data ++ map_of cached"
proof -
  have "map_of (sort_values (drop_duplicates (cached @ new_data)))
      = map_of (drop_duplicates (cached @ new_data))"
    by (rule sort_values_map_of) (rule drop_duplicates_distinct)
  then show ?thesis by (simp add: drop_duplicates_map_of)
qed

lemma save_cache_entry:
  "df \<noteq> [] \<Longrightarrow> \<exists>e'. cache (save_fund_data_to_cache now fund_code df w) fund_code = Some (Stored e')
       \<and> series e' = df \<and> last_update e' = now"
  by (simp add: save_fund_data_to_cache_def)

text \<open>
  Claim C1, as the code has it. On a stale cache whose latest date is before the end date,
  when the fetch returns rows, \<open>get_fund_data\<close> returns and stores the merged series, which
  has one row per date; on every date of the stored series, and so on every date that the
  stored series and the fetched rows share, the merged series carries the stored value
  (\<open>drop_duplicates\<close> keeps the first row of a date, and the stored rows come first).
  The fetched value is taken on the other dates only.
\<close>

theorem merge_keeps_cached_values:
  assumes "cache w fund_code = Some (Stored e)"
      and "date_of (last_update e) \<noteq> date_of now"
      and "series e \<noteq> []"
      and "Max (set (map fst (series e))) < (case end_date of None \<Rightarrow> date_of now | Some d \<Rightarrow> d)"
      and "fetch_fund_data_from_api remote fund_code start_date end_date' = Some (n, Inr new_data)"
      and "new_data \<noteq> []"
  shows "\<exists>merged w'. get_fund_data remote now fund_code end_date False w = Some (merged, w')
      \<and> (\<exists>e'. cache w' fund_code = Some (Stored e') \<and> series e' = merged)
      \<and> distinct (map fst merged)
      \<and> map_of merged = map_of new_data ++ map_of (series e)
      \<and> (\<forall>d\<in>fst ` set (series e). map_of merged d = map_of (series e) d)"
proof -
  let ?merged = "sort_values (drop_duplicates (series e @ new_data))"
  let ?w' = "save_fund_data_to_cache now fund_code ?merged (w\<lparr>requests := requests w + n\<rparr>)"
  have f: "fetch_fund_data_from_api remote fund_code None None = Some (n, Inr new_data)"
    using assms(5) fetch_dates_unused by metis
  have g: "get_fund_data remote now fund_code end_date False w = Some (?merged, ?w')"
    unfolding get_fund_data_stale_fetch [OF assms(1-4)] f using assms(6)
    by (simp add: fill_step_def)
  have ne: "?merged \<noteq> []"
    using assms(3) by (cases "series e") (simp_all add: sort_values_Nil)
  have d: "distinct (map fst ?merged)"
    by (simp add: sort_values_distinct drop_duplicates_distinct)
  have m: "map_of ?merged = map_of new_data ++ map_of (series e)"
    by (rule merged_map_of)
  have c: "\<forall>d\<in>fst ` set (series e). map_of ?merged d = map_of (series e) d"
  proof
    fix d assume "d \<in> fst ` set (series e)"
    then have "d \<in> dom (map_of (series e))" by (simp add: dom_map_of_conv_image_fst)
    then show "map_of ?merged d = map_of (series e) d"
      unfolding m by (auto simp: map_add_dom_app_simps)
  qed
  from save_cache_entry [OF ne, of now fund_code "w\<lparr>requests := requests w + n\<rparr>"]
  have "\<exists>e'. cache ?w' fund_code = Some (Stored e') \<and> series e' = ?merged" by blast
  with g d m c show ?thesis by blast
qed

text \<open>The stored days 1 and 2 keep their values 1 and 2; day 3 is new.\<close>

theorem merge_keeps_cached_values_witness:
  "get_fund_data revised_remote (3 * 86400) ''000001'' None False stale_world
     = Some ([(1, Fin 1), (2, Fin 2), (3, Fin 4)],
         \<lparr>cache = [''000001'' \<mapsto> Stored \<lparr>series = [(1, Fin 1), (2, Fin 2), (3, Fin 4)],
              last_update = 3 * 86400, data_count = 3, range_start = 1, range_end = 3\<rparr>],
          requests = 1\<rparr>)
   \<and> map_of [(1 :: date, Fin 1), (2, Fin 2), (3, Fin 4)]
     = map_of [(1 :: date, Fin 2), (2, Fin 3), (3, Fin 4)] ++ map_of [(1 :: date, Fin 1), (2, Fin 2)]"
proof -
  let ?e = "\<lparr>series = [(1, Fin 1), (2, Fin 2)], last_update = 86400 + 3600, data_count = 2,
             range_start = 1, range_end = 2\<rparr> :: cache_entry"
  have a: "date_of (last_update ?e) \<noteq> date_of (3 * 86400)" by (simp add: date_of_def)
  have b: "series ?e \<noteq> []" by simp
  have c: "Max (set (map fst (series ?e))) < (case None of None \<Rightarrow> date_of (3 * 86400) | Some d \<Rightarrow> d)"
    by (simp add: date_of_def)
  have d: "[(1 :: date, Fin 2), (2, Fin 3), (3, Fin 4)] \<noteq> []" by simp
  from merge_keeps_cached_values [OF stale_world_entry a b c revised_remote_fetch d]
  obtain merged w' where
    g: "get_fund_data revised_remote (3 * 86400) ''000001'' None False stale_world = Some (merged, w')"
    and m: "map_of merged = map_of [(1 :: date, Fin 2), (2, Fin 3), (3, Fin 4)] ++ map_of (series ?e)"
    by blast
  from g have "merged = [(1, Fin 1), (2, Fin 2), (3, Fin 4)]"
    unfolding stale_world_update by simp
  with m have "map_of [(1 :: date, Fin 1), (2, Fin 2), (3, Fin 4)]
     = map_of [(1 :: date, Fin 2), (2, Fin 3), (3, Fin 4)] ++ map_of [(1 :: date, Fin 1), (2, Fin 2)]"
    by simp
  with stale_world_update show ?thesis by (intro conjI)
qed

text \<open>
  Against C1 as stated: the remote reports the value 2 for day 1, the cache holds the value
  1 for day 1, and the merged series that is returned and stored holds the value 1.
\<close>

theorem fresh_data_wins_counterexample:
  "fetch_fund_data_from_api revised_remote ''000001'' (Some 3) (Some 3)
     = Some (1, Inr [(1, Fin 2), (2, Fin 3), (3, Fin 4)])
   \<and> get_fund_data revised_remote (3 * 86400) ''000001'' None False stale_world
     = Some ([(1, Fin 1), (2, Fin 2), (3, Fin 4)],
         \<lparr>cache = [''000001'' \<mapsto> Stored \<lparr>series = [(1, Fin 1), (2, Fin 2), (3, Fin 4)],
              last_update = 3 * 86400, data_count = 3, range_start = 1, range_end = 3\<rparr>],
          requests = 1\<rparr>)
   \<and> map_of [(1 :: date, Fin 2), (2, Fin 3), (3, Fin 4)] 1 = Some (Fin 2)
   \<and> map_of [(1 :: date, Fin 1), (2, Fin 2), (3, Fin 4)] 1 = Some (Fin 1)"
  using revised_remote_fetch [of "''000001''" "Some 3" "Some 3"] stale_world_update by simp

subsection \<open>Ordered series without repeated dates\<close>

lemma series_ok_clean_up:
  assumes "clean_up all_data = Inr s"
  shows "series_ok s"
proof (cases "all_data = []")
  case True
  then show ?thesis using assms by (auto simp: clean_up_def series_ok_def)
next
  case False
  then have "s = drop_duplicates (sort_values (dropna_rows all_data))"
    using assms by (auto simp: clean_up_def Let_def split: if_splits)
  then show ?thesis
    by (simp add: series_ok_def drop_duplicates_distinct drop_duplicates_sorted sort_values_sorted)
qed

lemma series_ok_fetch:
  assumes "fetch_fund_data_from_api remote fund_code start_date end_date = Some (n, Inr s)"
  shows "series_ok s"
proof (cases "fetch_pages (remote fund_code) 1 []")
  case None
  then show ?thesis using assms by (simp add: fetch_fund_data_from_api_def)
next
  case (Some l)
  show ?thesis
  proof (cases l)
    case (Aborted p)
    then show ?thesis using assms Some by (auto simp: fetch_fund_data_from_api_def series_ok_def)
  next
    case (Broke p all_data)
    then have "clean_up all_data = Inr s" using assms Some by (simp add: fetch_fund_data_from_api_def)
    then show ?thesis by (rule series_ok_clean_up)
  qed
qed

lemma series_ok_merge: "series_ok (sort_values (drop_duplicates (cached @ new_data)))"
  by (simp add: series_ok_def sort_values_sorted sort_values_distinct drop_duplicates_distinct)

lemma series_ok_dates:
  assumes "series_ok s"
  shows "map fst s = sorted_list_of_set (fst ` set s)"
proof -
  have "sorted (map fst s)" "distinct (map fst s)" using assms by (simp_all add: series_ok_def)
  then have "sorted_list_of_set (set (map fst s)) = map fst s"
    by (rule sorted_list_of_set.idem_if_sorted_distinct)
  then show ?thesis by simp
qed

lemma merged_dates:
  "map fst (sort_values (drop_duplicates (cached @ new_data)))
   = sorted_list_of_set (fst ` set cached \<union> fst ` set new_data)"
proof -
  have "fst ` set (sort_values (drop_duplicates (cached @ new_data)))
      = fst ` set cached \<union> fst ` set new_data"
    by (simp add: sort_values_set drop_duplicates_dates image_Un)
  then show ?thesis using series_ok_dates [OF series_ok_merge, of cached new_data] by simp
qed

lemma merge_append:
  assumes "series_ok cached" and "series_ok new_data"
      and "\<forall>r\<in>set cached. \<forall>q\<in>set new_data. fst r < fst q"
  shows "sort_values (drop_duplicates (cached @ new_data)) = cached @ new_data"
proof -
  have "fst ` set cached \<inter> fst ` set new_data = {}"
    using assms(3) by fastforce
  then have d: "distinct (map fst (cached @ new_data))"
    using assms(1,2) by (simp add: series_ok_def)
  have s: "sorted (map fst (cached @ new_data))"
    using assms by (auto simp: series_ok_def sorted_append less_imp_le)
  show ?thesis by (simp only: drop_duplicates_id [OF d] sort_values_id [OF s])
qed

lemma ffill_from_length: "length (ffill_from prev xs) = length xs"
  by (induction xs arbitrary: prev) simp_all

lemma fill_missing_days_dates:
  assumes "fill_missing_days df = Inr s"
  shows "map fst s = [Min (set (map fst df)) .. Max (set (map fst df))]"
  using assms
  by (auto simp: fill_missing_days_def Let_def ffill_def ffill_from_length split: if_splits)

lemma series_ok_fill:
  assumes "fill_missing_days df = Inr s"
  shows "series_ok s"
  unfolding series_ok_def fill_missing_days_dates [OF assms] by simp

lemma series_ok_Nil: "series_ok []"
  by (simp add: series_ok_def)

lemma series_ok_fill_step:
  assumes "series_ok df"
  shows "series_ok (fill_step fill_missing df)"
proof (cases "fill_missing \<and> df \<noteq> []")
  case True
  then show ?thesis
    by (cases "fill_missing_days df") (simp_all add: fill_step_def series_ok_Nil series_ok_fill)
next
  case False
  then show ?thesis using assms by (auto simp: fill_step_def)
qed

lemma cache_ok_requests: "cache_ok (w\<lparr>requests := k\<rparr>) = cache_ok w"
  by (simp add: cache_ok_def)

lemma cache_ok_save:
  assumes "cache_ok w" and "series_ok df"
  shows "cache_ok (save_fund_data_to_cache now fund_code df w)"
  using assms
  by (auto simp: cache_ok_def save_fund_data_to_cache_def series_ok_Nil
           split: option.splits cache_files.splits if_splits)

lemma cache_ok_forget:
  assumes "cache_ok w"
  shows "cache_ok (w\<lparr>cache := (cache w)(fund_code := None)\<rparr>)"
  using assms by (auto simp: cache_ok_def)

lemma get_fund_data_ok_no_cache:
  assumes "cache_ok w" and "cache w fund_code = None"
      and "get_fund_data remote now fund_code end_date fill_missing w = Some (s, w')"
  shows "series_ok s \<and> cache_ok w'"
proof (cases "fetch_fund_data_from_api remote fund_code None None")
  case None
  then show ?thesis using assms(3) unfolding get_fund_data_no_cache [OF assms(2)] by simp
next
  case (Some nr)
  obtain n r where nr: "nr = (n, r)" by (cases nr)
  show ?thesis
  proof (cases r)
    case (Inl err)
    then show ?thesis
      using assms(1,3) Some nr unfolding get_fund_data_no_cache [OF assms(2)]
      by (auto simp: series_ok_Nil cache_ok_requests)
  next
    case (Inr df)
    then have ok: "series_ok df" using Some nr series_ok_fetch by blast
    have s: "s = fill_step fill_missing df"
      and w': "w' = (if df \<noteq> [] then save_fund_data_to_cache now fund_code df (w\<lparr>requests := requests w + n\<rparr>)
                else w\<lparr>requests := requests w + n\<rparr>)"
      using assms(3) Some nr Inr unfolding get_fund_data_no_cache [OF assms(2)] by simp_all
    have "cache_ok (w\<lparr>requests := requests w + n\<rparr>)" using assms(1) by (simp only: cache_ok_requests)
    then have "cache_ok w'" unfolding w' using cache_ok_save [OF _ ok] by simp
    then show ?thesis using s series_ok_fill_step [OF ok] by simp
  qed
qed

lemma get_fund_data_ok_stored:
  assumes "cache_ok w" and "cache w fund_code = Some (Stored e)"
      and "get_fund_data remote now fund_code end_date fill_missing w = Some (s, w')"
  shows "series_ok s \<and> cache_ok w'"
proof -
  have e: "series_ok (series e)" using assms(1,2) by (auto simp: cache_ok_def)
  note g = assms(3) [unfolded get_fund_data_stored [OF assms(2)]]
  consider (today) "date_of (last_update e) = date_of now"
    | (empty) "date_of (last_update e) \<noteq> date_of now" "series e = []"
    | (covered) "date_of (last_update e) \<noteq> date_of now" "series e \<noteq> []"
        "\<not> Max (set (map fst (series e))) < (case end_date of None \<Rightarrow> date_of now | Some d \<Rightarrow> d)"
    | (fetch) "date_of (last_update e) \<noteq> date_of now" "series e \<noteq> []"
        "Max (set (map fst (series e))) < (case end_date of None \<Rightarrow> date_of now | Some d \<Rightarrow> d)"
    by blast
  then show ?thesis
  proof cases
    case today
    then have "s = series e" "w' = w" using g by simp_all
    then show ?thesis using e assms(1) by simp
  next
    case empty
    then have "s = []" "w' = w" using g by simp_all
    then show ?thesis using assms(1) by (simp add: series_ok_Nil)
  next
    case covered
    then have "s = fill_step fill_missing (series e)" "w' = w" using g by (simp_all only: if_False option.inject prod.inject)
    then show ?thesis using series_ok_fill_step [OF e] assms(1) by simp
  next
    case fetch
    note h = g [unfolded if_not_P [OF fetch(1)] if_not_P [OF fetch(2)] if_P [OF fetch(3)]]
    show ?thesis
    proof (cases "fetch_fund_data_from_api remote fund_code None None")
      case None
      then show ?thesis using h by simp
    next
      case (Some nr)
      obtain n r where nr: "nr = (n, r)" by (cases nr)
      have okw: "cache_ok (w\<lparr>requests := requests w + n\<rparr>)" using assms(1) by (simp only: cache_ok_requests)
      show ?thesis
      proof (cases r)
        case (Inl err)
        then show ?thesis using h Some nr okw by (auto simp: series_ok_Nil)
      next
        case (Inr new_data)
        show ?thesis
        proof (cases "new_data = []")
          case True
          then have "s = fill_step fill_missing (series e)" "w' = w\<lparr>requests := requests w + n\<rparr>"
            using h Some nr Inr by simp_all
          then show ?thesis using series_ok_fill_step [OF e] okw by simp
        next
          case False
          let ?m = "sort_values (drop_duplicates (series e @ new_data))"
          have "s = fill_step fill_missing ?m"
            "w' = save_fund_data_to_cache now fund_code ?m (w\<lparr>requests := requests w + n\<rparr>)"
            using h Some nr Inr False by simp_all
          then show ?thesis
            using series_ok_fill_step [OF series_ok_merge] cache_ok_save [OF okw series_ok_merge]
            by simp
        qed
      qed
    qed
  qed
qed

lemma get_fund_data_ok:
  assumes "cache_ok w"
      and "get_fund_data remote now fund_code end_date fill_missing w = Some (s, w')"
  shows "series_ok s \<and> cache_ok w'"
proof (cases "cache w fund_code")
  case None
  then show ?thesis using get_fund_data_ok_no_cache [OF assms(1) _ assms(2)] by simp
next
  case (Some c)
  show ?thesis
  proof (cases c)
    case Corrupt
    let ?w = "w\<lparr>cache := (cache w)(fund_code := None)\<rparr>"
    have "cache ?w fund_code = None" by simp
    moreover have "get_fund_data remote now fund_code end_date fill_missing ?w = Some (s, w')"
      using assms(2) get_fund_data_corrupt [of w fund_code] Some Corrupt by simp
    ultimately show ?thesis using get_fund_data_ok_no_cache [OF cache_ok_forget [OF assms(1)]] by blast
  next
    case (Stored e)
    then show ?thesis using get_fund_data_ok_stored [OF assms(1) _ assms(2)] Some by simp
  qed
qed

lemma reachable_cache_ok:
  assumes "reachable w"
  shows "cache_ok w"
  using assms
proof (induction rule: reachable.induct)
  case start
  show ?case by (simp add: cache_ok_def)
next
  case (call w remote now fund_code end_date fill_missing s w')
  then show ?case using get_fund_data_ok by blast
next
  case (damage w fund_code)
  then show ?case by (auto simp: cache_ok_def)
qed

lemma fetch_dates:
  assumes "fetch_pages (remote fund_code) 1 [] = Some (Broke n all_data)"
      and "dropna_rows all_data \<noteq> []"
  shows "\<exists>s. fetch_fund_data_from_api remote fund_code start_date end_date = Some (n, Inr s)
             \<and> s \<noteq> [] \<and> series_ok s
             \<and> map fst s = sorted_list_of_set (fst ` set (dropna_rows all_data))"
proof -
  from fetch_rows [of remote fund_code, OF assms, of start_date end_date]
  obtain s where f: "fetch_fund_data_from_api remote fund_code start_date end_date = Some (n, Inr s)"
    and d: "fst ` set s = fst ` set (dropna_rows all_data)"
    by blast
  have ok: "series_ok s" using f by (rule series_ok_fetch)
  have "set (dropna_rows all_data) \<noteq> {}" using assms(2) by simp
  then have "fst ` set s \<noteq> {}" unfolding d by simp
  then have "s \<noteq> []" by auto
  then show ?thesis using f ok series_ok_dates [OF ok] d by simp
qed

lemma fill_step_False: "fill_step False df = df"
  by (simp add: fill_step_def)

lemma get_fund_data_first:
  assumes "cache w fund_code = None"
      and "fetch_fund_data_from_api remote fund_code start_date end_date' = Some (n, Inr df)"
      and "df \<noteq> []"
  shows "\<exists>w'. get_fund_data remote now fund_code end_date fill_missing w
                = Some (fill_step fill_missing df, w')
            \<and> (\<exists>e'. cache w' fund_code = Some (Stored e') \<and> series e' = df)
            \<and> requests w' = requests w + n"
proof -
  let ?w' = "save_fund_data_to_cache now fund_code df (w\<lparr>requests := requests w + n\<rparr>)"
  have f: "fetch_fund_data_from_api remote fund_code None None = Some (n, Inr df)"
    using assms(2) fetch_dates_unused by metis
  have "get_fund_data remote now fund_code end_date fill_missing w = Some (fill_step fill_missing df, ?w')"
    unfolding get_fund_data_no_cache [OF assms(1)] f using assms(3) by simp
  moreover from save_cache_entry [OF assms(3), of now fund_code "w\<lparr>requests := requests w + n\<rparr>"]
  have "\<exists>e'. cache ?w' fund_code = Some (Stored e') \<and> series e' = df" by blast
  moreover have "requests ?w' = requests w + n" by (simp add: save_requests)
  ultimately show ?thesis by blast
qed

lemma get_fund_data_merge:
  assumes "cache w fund_code = Some (Stored e)"
      and "date_of (last_update e) \<noteq> date_of now"
      and "series e \<noteq> []"
      and "Max (set (map fst (series e))) < (case end_date of None \<Rightarrow> date_of now | Some d \<Rightarrow> d)"
      and "fetch_fund_data_from_api remote fund_code start_date end_date' = Some (n, Inr new_data)"
      and "new_data \<noteq> []"
  shows "\<exists>merged w'. get_fund_data remote now fund_code end_date fill_missing w
                = Some (fill_step fill_missing merged, w')
            \<and> merged \<noteq> [] \<and> series_ok merged
            \<and> map fst merged = sorted_list_of_set (fst ` set (series e) \<union> fst ` set new_data)
            \<and> (\<exists>e'. cache w' fund_code = Some (Stored e') \<and> series e' = merged)
            \<and> (series_ok (series e) \<and> (\<forall>r\<in>set (series e). \<forall>q\<in>set new_data. fst r < fst q)
                 \<longrightarrow> merged = series e @ new_data)"
proof -
  let ?merged = "sort_values (drop_duplicates (series e @ new_data))"
  let ?w' = "save_fund_data_to_cache now fund_code ?merged (w\<lparr>requests := requests w + n\<rparr>)"
  have f: "fetch_fund_data_from_api remote fund_code None None = Some (n, Inr new_data)"
    using assms(5) fetch_dates_unused by metis
  have new_ok: "series_ok new_data" using assms(5) by (rule series_ok_fetch)
  have g: "get_fund_data remote now fund_code end_date fill_missing w
             = Some (fill_step fill_missing ?merged, ?w')"
    unfolding get_fund_data_stale_fetch [OF assms(1-4)] f using assms(6) by simp
  have ne: "?merged \<noteq> []"
    using assms(3) by (cases "series e") (simp_all add: sort_values_Nil)
  from save_cache_entry [OF ne, of now fund_code "w\<lparr>requests := requests w + n\<rparr>"]
  have st: "\<exists>e'. cache ?w' fund_code = Some (Stored e') \<and> series e' = ?merged" by blast
  have app: "series_ok (series e) \<and> (\<forall>r\<in>set (series e). \<forall>q\<in>set new_data. fst r < fst q)
                 \<longrightarrow> ?merged = series e @ new_data"
    using merge_append [OF _ new_ok] by blast
  from g ne series_ok_merge [of "series e" new_data] merged_dates [of "series e" new_data] st app
  show ?thesis by blast
qed

text \<open>
  Claim C4. The series of the data layer are sorted by date and have no date twice, and they
  hold one row for every available date:
  \<^item> a series returned by the fetch is of this kind; when the loop ends by \<open>break\<close> and an
    accumulated row has a date and a value, the fetch returns a series with rows whose dates
    are exactly the dates of the accumulated rows that have a date and a value;
  \<^item> without a cache entry, \<open>get_fund_data\<close> returns the fetched series (through the fill
    step, which leaves it as it is when \<open>fill_missing\<close> is off) and stores it;
  \<^item> on a stale entry that ends before the end date, when the fetch returns rows,
    \<open>get_fund_data\<close> returns (through the fill step) and stores a merged series with rows
    that is of this kind and whose dates are exactly the dates of the stored series and of
    the fetched rows; when the fetched rows are all later than the stored ones, it is the
    stored series followed by the fetched rows;
  \<^item> on an entry updated today, \<open>get_fund_data\<close> returns the stored series, which is of
    this kind in every state the program can reach;
  \<^item> the fill step keeps a series of this kind; and when every series stored in the cache is
    of this kind, so is whatever \<open>get_fund_data\<close> returns, on every path, and so is every
    series stored afterwards, hence in every state the program can reach from an empty cache.
\<close>

theorem data_layer_series_sorted_distinct:
  "(\<forall>n s. fetch_fund_data_from_api remote fund_code start_date end_date' = Some (n, Inr s)
        \<longrightarrow> series_ok s)
   \<and> (\<forall>n all_data. fetch_pages (remote fund_code) 1 [] = Some (Broke n all_data)
          \<and> dropna_rows all_data \<noteq> []
        \<longrightarrow> (\<exists>s. fetch_fund_data_from_api remote fund_code start_date end_date' = Some (n, Inr s)
                \<and> s \<noteq> [] \<and> series_ok s
                \<and> map fst s = sorted_list_of_set (fst ` set (dropna_rows all_data))))
   \<and> (\<forall>n df. cache w fund_code = None
          \<and> fetch_fund_data_from_api remote fund_code start_date end_date' = Some (n, Inr df)
          \<and> df \<noteq> []
        \<longrightarrow> series_ok df
          \<and> (\<exists>w'. get_fund_data remote now fund_code end_date fill_missing w
                     = Some (fill_step fill_missing df, w')
                \<and> (\<exists>e'. cache w' fund_code = Some (Stored e') \<and> series e' = df)))
   \<and> (\<forall>e n new_data. cache w fund_code = Some (Stored e)
          \<and> date_of (last_update e) \<noteq> date_of now
          \<and> series e \<noteq> []
          \<and> Max (set (map fst (series e))) < (case end_date of None \<Rightarrow> date_of now | Some d \<Rightarrow> d)
          \<and> fetch_fund_data_from_api remote fund_code start_date end_date' = Some (n, Inr new_data)
          \<and> new_data \<noteq> []
        \<longrightarrow> (\<exists>merged w'. get_fund_data remote now fund_code end_date fill_missing w
                     = Some (fill_step fill_missing merged, w')
                \<and> merged \<noteq> [] \<and> series_ok merged
                \<and> map fst merged = sorted_list_of_set (fst ` set (series e) \<union> fst ` set new_data)
                \<and> (\<exists>e'. cache w' fund_code = Some (Stored e') \<and> series e' = merged)
                \<and> (series_ok (series e) \<and> (\<forall>r\<in>set (series e). \<forall>q\<in>set new_data. fst r < fst q)
                     \<longrightarrow> merged = series e @ new_data)))
   \<and> (\<forall>e. cache w fund_code = Some (Stored e) \<and> date_of (last_update e) = date_of now
        \<longrightarrow> get_fund_data remote now fund_code end_date fill_missing w = Some (series e, w)
          \<and> (reachable w \<longrightarrow> series_ok (series e)))
   \<and> fill_step False series' = series'
   \<and> (series_ok series' \<longrightarrow> series_ok (fill_step fill_missing series'))
   \<and> (cache_ok w \<longrightarrow>
        (\<forall>s w'. get_fund_data remote now fund_code end_date fill_missing w = Some (s, w')
           \<longrightarrow> series_ok s \<and> cache_ok w'))
   \<and> (reachable w \<longrightarrow>
        (\<forall>e. cache w fund_code = Some (Stored e) \<longrightarrow> series_ok (series e))
      \<and> (\<forall>s w'. get_fund_data remote now fund_code end_date fill_missing w = Some (s, w')
           \<longrightarrow> series_ok s))"
proof (intro conjI)
  show "\<forall>n s. fetch_fund_data_from_api remote fund_code start_date end_date' = Some (n, Inr s)
        \<longrightarrow> series_ok s"
    using series_ok_fetch by blast
  show "\<forall>n all_data. fetch_pages (remote fund_code) 1 [] = Some (Broke n all_data)
          \<and> dropna_rows all_data \<noteq> []
        \<longrightarrow> (\<exists>s. fetch_fund_data_from_api remote fund_code start_date end_date' = Some (n, Inr s)
                \<and> s \<noteq> [] \<and> series_ok s
                \<and> map fst s = sorted_list_of_set (fst ` set (dropna_rows all_data)))"
    using fetch_dates [of remote fund_code] by blast
  show "\<forall>n df. cache w fund_code = None
          \<and> fetch_fund_data_from_api remote fund_code start_date end_date' = Some (n, Inr df)
          \<and> df \<noteq> []
        \<longrightarrow> series_ok df
          \<and> (\<exists>w'. get_fund_data remote now fund_code end_date fill_missing w
                     = Some (fill_step fill_missing df, w')
                \<and> (\<exists>e'. cache w' fund_code = Some (Stored e') \<and> series e' = df))"
  proof (intro allI impI)
    fix n df
    assume a: "cache w fund_code = None
          \<and> fetch_fund_data_from_api remote fund_code start_date end_date' = Some (n, Inr df)
          \<and> df \<noteq> []"
    then have "series_ok df" using series_ok_fetch by blast
    moreover from a get_fund_data_first [of w fund_code remote start_date end_date' n df now end_date fill_missing]
    have "\<exists>w'. get_fund_data remote now fund_code end_date fill_missing w
                     = Some (fill_step fill_missing df, w')
                \<and> (\<exists>e'. cache w' fund_code = Some (Stored e') \<and> series e' = df)"
      by blast
    ultimately show "series_ok df
          \<and> (\<exists>w'. get_fund_data remote now fund_code end_date fill_missing w
                     = Some (fill_step fill_missing df, w')
                \<and> (\<exists>e'. cache w' fund_code = Some (Stored e') \<and> series e' = df))"
      by (rule conjI)
  qed
  show "\<forall>e n new_data. cache w fund_code = Some (Stored e)
          \<and> date_of (last_update e) \<noteq> date_of now
          \<and> series e \<noteq> []
          \<and> Max (set (map fst (series e))) < (case end_date of None \<Rightarrow> date_of now | Some d \<Rightarrow> d)
          \<and> fetch_fund_data_from_api remote fund_code start_date end_date' = Some (n, Inr new_data)
          \<and> new_data \<noteq> []
        \<longrightarrow> (\<exists>merged w'. get_fund_data remote now fund_code end_date fill_missing w
                     = Some (fill_step fill_missing merged, w')
                \<and> merged \<noteq> [] \<and> series_ok merged
                \<and> map fst merged = sorted_list_of_set (fst ` set (series e) \<union> fst ` set new_data)
                \<and> (\<exists>e'. cache w' fund_code = Some (Stored e') \<and> series e' = merged)
                \<and> (series_ok (series e) \<and> (\<forall>r\<in>set (series e). \<forall>q\<in>set new_data. fst r < fst q)
                     \<longrightarrow> merged = series e @ new_data))"
  proof (intro allI impI)
    fix e n new_data
    assume a: "cache w fund_code = Some (Stored e)
          \<and> date_of (last_update e) \<noteq> date_of now
          \<and> series e \<noteq> []
          \<and> Max (set (map fst (series e))) < (case end_date of None \<Rightarrow> date_of now | Some d \<Rightarrow> d)
          \<and> fetch_fund_data_from_api remote fund_code start_date end_date' = Some (n, Inr new_data)
          \<and> new_data \<noteq> []"
    then have a1: "cache w fund_code = Some (Stored e)"
      and a2: "date_of (last_update e) \<noteq> date_of now"
      and a3: "series e \<noteq> []"
      and a4: "Max (set (map fst (series e))) < (case end_date of None \<Rightarrow> date_of now | Some d \<Rightarrow> d)"
      and a5: "fetch_fund_data_from_api remote fund_code start_date end_date' = Some (n, Inr new_data)"
      and a6: "new_data \<noteq> []"
      by blast+
    show "\<exists>merged w'. get_fund_data remote now fund_code end_date fill_missing w
                     = Some (fill_step fill_missing merged, w')
                \<and> merged \<noteq> [] \<and> series_ok merged
                \<and> map fst merged = sorted_list_of_set (fst ` set (series e) \<union> fst ` set new_data)
                \<and> (\<exists>e'. cache w' fund_code = Some (Stored e') \<and> series e' = merged)
                \<and> (series_ok (series e) \<and> (\<forall>r\<in>set (series e). \<forall>q\<in>set new_data. fst r < fst q)
                     \<longrightarrow> merged = series e @ new_data)"
      by (rule get_fund_data_merge [OF a1 a2 a3 a4 a5 a6])
  qed
  show "\<forall>e. cache w fund_code = Some (Stored e) \<and> date_of (last_update e) = date_of now
        \<longrightarrow> get_fund_data remote now fund_code end_date fill_missing w = Some (series e, w)
          \<and> (reachable w \<longrightarrow> series_ok (series e))"
  proof (intro allI impI conjI)
    fix e
    assume a: "cache w fund_code = Some (Stored e) \<and> date_of (last_update e) = date_of now"
    then show "get_fund_data remote now fund_code end_date fill_missing w = Some (series e, w)"
      using get_fund_data_same_day by blast
    assume "reachable w"
    then have "cache_ok w" by (rule reachable_cache_ok)
    then show "series_ok (series e)" using a unfolding cache_ok_def by blast
  qed
  show "fill_step False series' = series'" by (rule fill_step_False)
  show "series_ok series' \<longrightarrow> series_ok (fill_step fill_missing series')"
    using series_ok_fill_step by blast
  show "cache_ok w \<longrightarrow>
        (\<forall>s w'. get_fund_data remote now fund_code end_date fill_missing w = Some (s, w')
           \<longrightarrow> series_ok s \<and> cache_ok w')"
    using get_fund_data_ok by blast
  show "reachable w \<longrightarrow>
        (\<forall>e. cache w fund_code = Some (Stored e) \<longrightarrow> series_ok (series e))
      \<and> (\<forall>s w'. get_fund_data remote now fund_code end_date fill_missing w = Some (s, w')
           \<longrightarrow> series_ok s)"
  proof
    assume "reachable w"
    then have ok: "cache_ok w" by (rule reachable_cache_ok)
    then have "\<forall>e. cache w fund_code = Some (Stored e) \<longrightarrow> series_ok (series e)"
      by (simp add: cache_ok_def)
    moreover have "\<forall>s w'. get_fund_data remote now fund_code end_date fill_missing w = Some (s, w')
           \<longrightarrow> series_ok s"
      using get_fund_data_ok [OF ok] by blast
    ultimately show "(\<forall>e. cache w fund_code = Some (Stored e) \<longrightarrow> series_ok (series e))
      \<and> (\<forall>s w'. get_fund_data remote now fund_code end_date fill_missing w = Some (s, w')
           \<longrightarrow> series_ok s)" by blast
  qed
qed

lemma stale_world_ok: "cache_ok stale_world"
  by (auto simp: cache_ok_def stale_world_def series_ok_def split: if_splits)

lemma first_fetch:
  "get_fund_data revised_remote (3 * 86400) ''000001'' None False \<lparr>cache = Map.empty, requests = 0\<rparr>
   = Some ([(1, Fin 2), (2, Fin 3), (3, Fin 4)],
       \<lparr>cache = [''000001'' \<mapsto> Stored \<lparr>series = [(1, Fin 2), (2, Fin 3), (3, Fin 4)],
            last_update = 3 * 86400, data_count = 3, range_start = 1, range_end = 3\<rparr>],
        requests = 1\<rparr>)"
proof -
  have "cache \<lparr>cache = Map.empty, requests = 0\<rparr> ''000001'' = None" by simp
  note g = get_fund_data_no_cache [OF this, of revised_remote "3 * 86400" None False]
  show ?thesis
    unfolding g revised_remote_fetch
    by (simp add: fill_step_def save_fund_data_to_cache_def numeral_3_eq_3)
qed

lemma revised_remote_loop:
  "fetch_pages (revised_remote fund_code) 1 []
     = Some (Broke 1 [(Some 3, Fin 4), (Some 2, Fin 3), (Some 1, Fin 2)])"
  by (subst fetch_pages.simps) (simp add: revised_remote_def per_page_def)

lemma later_remote_fetch:
  "fetch_fund_data_from_api later_remote fund_code start_date end_date
   = Some (1, Inr [(3, Fin 4), (4, Fin 5)])"
proof -
  have "fetch_pages (later_remote fund_code) 1 []
      = Some (Broke 1 [(Some 4, Fin 5), (Some 3, Fin 4)])"
    by (subst fetch_pages.simps) (simp add: later_remote_def per_page_def)
  then show ?thesis
    by (simp add: fetch_fund_data_from_api_def clean_up_def dropna_rows_def
        List.map_filter_simps sort_values_def)
qed

lemma stale_world_later:
  "get_fund_data later_remote (4 * 86400) ''000001'' None False stale_world
   = Some ([(1, Fin 1), (2, Fin 2), (3, Fin 4), (4, Fin 5)],
       \<lparr>cache = [''000001'' \<mapsto> Stored \<lparr>series = [(1, Fin 1), (2, Fin 2), (3, Fin 4), (4, Fin 5)],
            last_update = 4 * 86400, data_count = 4, range_start = 1, range_end = 4\<rparr>],
        requests = 1\<rparr>)"
proof -
  let ?e = "\<lparr>series = [(1, Fin 1), (2, Fin 2)], last_update = 86400 + 3600, data_count = 2,
             range_start = 1, range_end = 2\<rparr> :: cache_entry"
  have a: "date_of (last_update ?e) \<noteq> date_of (4 * 86400)" by (simp add: date_of_def)
  have b: "series ?e \<noteq> []" by simp
  have c: "Max (set (map fst (series ?e))) < (case None of None \<Rightarrow> date_of (4 * 86400) | Some d \<Rightarrow> d)"
    by (simp add: date_of_def)
  show ?thesis
    unfolding get_fund_data_stale_fetch [OF stale_world_entry a b c] later_remote_fetch
    by (simp add: fill_step_def sort_values_def save_fund_data_to_cache_def stale_world_def
        eval_nat_numeral)
qed

text \<open>The fetch of three rows, the first call on an empty cache, the merge of the stored
  days 1 and 2 with the fetched days 3 and 4, the merge with a fetch that overlaps the
  stored days, and the read-back of an entry updated today.\<close>

theorem data_layer_series_sorted_distinct_witness:
  "fetch_fund_data_from_api revised_remote ''000001'' None None
     = Some (1, Inr [(1, Fin 2), (2, Fin 3), (3, Fin 4)])
   \<and> map fst [(1 :: date, Fin 2), (2, Fin 3), (3, Fin 4)]
       = sorted_list_of_set (fst ` set (dropna_rows [(Some 3, Fin 4), (Some 2, Fin 3), (Some 1, Fin 2)]))
   \<and> series_ok [(1, Fin 2), (2, Fin 3), (3, Fin 4)]
   \<and> get_fund_data revised_remote (3 * 86400) ''000001'' None False \<lparr>cache = Map.empty, requests = 0\<rparr>
       = Some ([(1, Fin 2), (2, Fin 3), (3, Fin 4)],
           \<lparr>cache = [''000001'' \<mapsto> Stored \<lparr>series = [(1, Fin 2), (2, Fin 3), (3, Fin 4)],
                last_update = 3 * 86400, data_count = 3, range_start = 1, range_end = 3\<rparr>],
            requests = 1\<rparr>)
   \<and> get_fund_data later_remote (4 * 86400) ''000001'' None False stale_world
       = Some ([(1, Fin 1), (2, Fin 2)] @ [(3, Fin 4), (4, Fin 5)],
           \<lparr>cache = [''000001'' \<mapsto> Stored \<lparr>series = [(1, Fin 1), (2, Fin 2), (3, Fin 4), (4, Fin 5)],
                last_update = 4 * 86400, data_count = 4, range_start = 1, range_end = 4\<rparr>],
            requests = 1\<rparr>)
   \<and> series_ok ([(1, Fin 1), (2, Fin 2)] @ [(3, Fin 4), (4, Fin 5)])
   \<and> map fst ([(1 :: date, Fin 1), (2, Fin 2)] @ [(3, Fin 4), (4, Fin 5)])
       = sorted_list_of_set (fst ` set [(1 :: date, Fin 1), (2, Fin 2)]
                              \<union> fst ` set [(3 :: date, Fin 4), (4, Fin 5)])
   \<and> get_fund_data revised_remote (3 * 86400) ''000001'' None False stale_world
       = Some ([(1, Fin 1), (2, Fin 2), (3, Fin 4)],
           \<lparr>cache = [''000001'' \<mapsto> Stored \<lparr>series = [(1, Fin 1), (2, Fin 2), (3, Fin 4)],
                last_update = 3 * 86400, data_count = 3, range_start = 1, range_end = 3\<rparr>],
            requests = 1\<rparr>)
   \<and> series_ok [(1, Fin 1), (2, Fin 2), (3, Fin 4)]
   \<and> cache_ok \<lparr>cache = [''000001'' \<mapsto> Stored \<lparr>series = [(1, Fin 1), (2, Fin 2), (3, Fin 4)],
              last_update = 3 * 86400, data_count = 3, range_start = 1, range_end = 3\<rparr>],
          requests = 1\<rparr>
   \<and> get_fund_data revised_remote (8 * 86400 + 7200) ''000001'' None False fresh_world
       = Some ([(4, Fin 1), (7, Fin (11 / 10))], fresh_world)
   \<and> reachable \<lparr>cache = Map.empty, requests = 0\<rparr>"
proof -
  let ?w0 = "\<lparr>cache = Map.empty, requests = 0\<rparr> :: world"
  let ?e = "\<lparr>series = [(1, Fin 1), (2, Fin 2)], last_update = 86400 + 3600, data_count = 2,
             range_start = 1, range_end = 2\<rparr> :: cache_entry"
  let ?f = "\<lparr>series = friday_monday, last_update = 8 * 86400 + 3600,
       data_count = 2, range_start = 4, range_end = 7\<rparr> :: cache_entry"
  note th0 = data_layer_series_sorted_distinct [of revised_remote "''000001''" None None ?w0
      "3 * 86400" None False "[]"]
  note th1 = data_layer_series_sorted_distinct [of later_remote "''000001''" None None stale_world
      "4 * 86400" None False "[(1, Fin 1), (2, Fin 2), (3, Fin 4), (4, Fin 5)]"]
  note th2 = data_layer_series_sorted_distinct [of revised_remote "''000001''" None None stale_world
      "3 * 86400" None False "[]"]
  note th3 = data_layer_series_sorted_distinct [of revised_remote "''000001''" None None fresh_world
      "8 * 86400 + 7200" None False "[]"]
  have r: "reachable ?w0" by (rule reachable.start)

  have "dropna_rows [(Some 3, Fin 4), (Some 2, Fin 3), (Some (1 :: date), Fin 2)] \<noteq> []"
    by (simp add: dropna_rows_def List.map_filter_simps)
  with th0 revised_remote_loop [of "''000001''"]
  obtain s where s: "fetch_fund_data_from_api revised_remote ''000001'' None None = Some (1, Inr s)"
    and s_ok: "series_ok s"
    and s_dates: "map fst s = sorted_list_of_set
        (fst ` set (dropna_rows [(Some 3, Fin 4), (Some 2, Fin 3), (Some 1, Fin 2)]))"
    by blast
  from s have s_eq: "s = [(1, Fin 2), (2, Fin 3), (3, Fin 4)]"
    unfolding revised_remote_fetch by simp
  note a = s [unfolded s_eq] s_dates [unfolded s_eq] s_ok [unfolded s_eq]

  have "cache ?w0 ''000001'' = None" by simp
  with th0 a(1) obtain w' where
    "get_fund_data revised_remote (3 * 86400) ''000001'' None False ?w0
       = Some (fill_step False [(1, Fin 2), (2, Fin 3), (3, Fin 4)], w')"
    by blast
  then have b: "get_fund_data revised_remote (3 * 86400) ''000001'' None False ?w0
       = Some ([(1, Fin 2), (2, Fin 3), (3, Fin 4)],
           \<lparr>cache = [''000001'' \<mapsto> Stored \<lparr>series = [(1, Fin 2), (2, Fin 3), (3, Fin 4)],
                last_update = 3 * 86400, data_count = 3, range_start = 1, range_end = 3\<rparr>],
            requests = 1\<rparr>)"
    unfolding first_fetch by simp

  have h1: "cache stale_world ''000001'' = Some (Stored ?e)
          \<and> date_of (last_update ?e) \<noteq> date_of (4 * 86400)
          \<and> series ?e \<noteq> []
          \<and> Max (set (map fst (series ?e))) < (case None of None \<Rightarrow> date_of (4 * 86400) | Some d \<Rightarrow> d)
          \<and> fetch_fund_data_from_api later_remote ''000001'' None None
              = Some (1, Inr [(3, Fin 4), (4, Fin 5)])
          \<and> [(3 :: date, Fin 4), (4, Fin 5)] \<noteq> []"
    using stale_world_entry later_remote_fetch [of "''000001''" None None] by (simp add: date_of_def)
  from th1 [THEN conjunct2, THEN conjunct2, THEN conjunct2, THEN conjunct1, rule_format, OF h1]
  obtain merged w1 where
    g1: "get_fund_data later_remote (4 * 86400) ''000001'' None False stale_world
           = Some (fill_step False merged, w1)"
    and m_ok: "series_ok merged"
    and m_dates: "map fst merged = sorted_list_of_set
          (fst ` set (series ?e) \<union> fst ` set [(3 :: date, Fin 4), (4, Fin 5)])"
    and m_app: "series_ok (series ?e)
          \<and> (\<forall>r\<in>set (series ?e). \<forall>q\<in>set [(3 :: date, Fin 4), (4, Fin 5)]. fst r < fst q)
          \<longrightarrow> merged = series ?e @ [(3, Fin 4), (4, Fin 5)]"
    by blast
  have "series_ok (series ?e)
          \<and> (\<forall>r\<in>set (series ?e). \<forall>q\<in>set [(3 :: date, Fin 4), (4, Fin 5)]. fst r < fst q)"
    by (simp add: series_ok_def)
  with m_app have m_eq: "merged = [(1, Fin 1), (2, Fin 2)] @ [(3, Fin 4), (4, Fin 5)]" by simp
  have "fill_step False merged = merged"
    using th1 m_eq by simp
  with g1 have "get_fund_data later_remote (4 * 86400) ''000001'' None False stale_world
           = Some (merged, w1)" by simp
  then have c1: "get_fund_data later_remote (4 * 86400) ''000001'' None False stale_world
       = Some ([(1, Fin 1), (2, Fin 2)] @ [(3, Fin 4), (4, Fin 5)],
           \<lparr>cache = [''000001'' \<mapsto> Stored \<lparr>series = [(1, Fin 1), (2, Fin 2), (3, Fin 4), (4, Fin 5)],
                last_update = 4 * 86400, data_count = 4, range_start = 1, range_end = 4\<rparr>],
            requests = 1\<rparr>)"
    unfolding stale_world_later m_eq by simp
  have c2: "series_ok ([(1, Fin 1), (2, Fin 2)] @ [(3, Fin 4), (4, Fin 5)])"
    using m_ok unfolding m_eq .
  have c3: "map fst ([(1 :: date, Fin 1), (2, Fin 2)] @ [(3, Fin 4), (4, Fin 5)])
       = sorted_list_of_set (fst ` set [(1 :: date, Fin 1), (2, Fin 2)]
                              \<union> fst ` set [(3 :: date, Fin 4), (4, Fin 5)])"
    using m_dates unfolding m_eq by simp

  have d: "series_ok [(1, Fin 1), (2, Fin 2), (3, Fin 4)]
   \<and> cache_ok \<lparr>cache = [''000001'' \<mapsto> Stored \<lparr>series = [(1, Fin 1), (2, Fin 2), (3, Fin 4)],
              last_update = 3 * 86400, data_count = 3, range_start = 1, range_end = 3\<rparr>],
          requests = 1\<rparr>"
    using th2 stale_world_ok stale_world_update by blast

  have "cache fresh_world ''000001'' = Some (Stored ?f)
        \<and> date_of (last_update ?f) = date_of (8 * 86400 + 7200)"
    using fresh_world_entry by (simp add: date_of_def)
  with th3 have "get_fund_data revised_remote (8 * 86400 + 7200) ''000001'' None False fresh_world
       = Some (series ?f, fresh_world)" by blast
  then have e: "get_fund_data revised_remote (8 * 86400 + 7200) ''000001'' None False fresh_world
       = Some ([(4, Fin 1), (7, Fin (11 / 10))], fresh_world)"
    by (simp add: friday_monday_def)
  from a b c1 c2 c3 stale_world_update d e r show ?thesis by (intro conjI) blast+
qed

subsection \<open>The calendar-day fill\<close>

lemma ffill_from_upto:
  assumes "a \<le> d" and "d \<le> b"
  shows "ffill_from prev (map g [a..b]) ! nat (d - a)
       = (if {d' \<in> {a..d}. g d' \<noteq> NaN} = {} then prev
          else g (Max {d' \<in> {a..d}. g d' \<noteq> NaN}))"
  using assms
proof (induction "nat (b - a)" arbitrary: a prev)
  case 0
  then have "a = b" "d = a" by simp_all
  then have "{d' \<in> {a..d}. g d' \<noteq> NaN} = (if g a = NaN then {} else {a})" by auto
  then show ?case using \<open>a = b\<close> \<open>d = a\<close> by (simp add: upto.simps)
next
  case (Suc k)
  then have ab: "a < b" by simp
  then have up: "[a..b] = a # [a + 1..b]" by (simp add: upto_rec1)
  let ?p = "if g a = NaN then prev else g a"
  have unfold: "ffill_from prev (map g [a..b]) = ?p # ffill_from ?p (map g [a + 1..b])"
    by (simp add: up)
  show ?case
  proof (cases "d = a")
    case True
    then have "{d' \<in> {a..d}. g d' \<noteq> NaN} = (if g a = NaN then {} else {a})" by auto
    then show ?thesis using True by (simp add: unfold)
  next
    case False
    then have d: "a + 1 \<le> d" using Suc.prems by simp
    have k: "k = nat (b - (a + 1))" using Suc.hyps(2) by simp
    have idx: "nat (d - a) = Suc (nat (d - (a + 1)))" using d by simp
    have IH: "ffill_from ?p (map g [a + 1..b]) ! nat (d - (a + 1))
       = (if {d' \<in> {a + 1..d}. g d' \<noteq> NaN} = {} then ?p
          else g (Max {d' \<in> {a + 1..d}. g d' \<noteq> NaN}))"
      by (rule Suc.hyps(1) [OF k d Suc.prems(2)])
    have split: "{d' \<in> {a..d}. g d' \<noteq> NaN}
        = (if g a = NaN then {} else {a}) \<union> {d' \<in> {a + 1..d}. g d' \<noteq> NaN}"
    proof (rule set_eqI)
      fix x
      have "a \<le> x \<longleftrightarrow> x = a \<or> a + 1 \<le> x" by auto
      then show "x \<in> {d' \<in> {a..d}. g d' \<noteq> NaN}
          \<longleftrightarrow> x \<in> (if g a = NaN then {} else {a}) \<union> {d' \<in> {a + 1..d}. g d' \<noteq> NaN}"
        using d by auto
    qed
    have fin: "finite {d' \<in> {a + 1..d}. g d' \<noteq> NaN}"
      by (rule finite_subset [of _ "{a + 1..d}"]) auto
    show ?thesis
    proof (cases "{d' \<in> {a + 1..d}. g d' \<noteq> NaN} = {}")
      case True
      show ?thesis
        unfolding unfold idx nth_Cons_Suc IH split True by simp
    next
      case False
      have "Max ((if g a = NaN then {} else {a}) \<union> {d' \<in> {a + 1..d}. g d' \<noteq> NaN})
          = Max {d' \<in> {a + 1..d}. g d' \<noteq> NaN}"
      proof (cases "g a = NaN")
        case True
        then show ?thesis by simp
      next
        case ga: False
        have "a \<le> Max {d' \<in> {a + 1..d}. g d' \<noteq> NaN}"
          using False fin Max_in [OF fin False] by auto
        then show ?thesis using ga False fin by (simp add: max_def)
      qed
      moreover have "(if g a = NaN then {} else {a}) \<union> {d' \<in> {a + 1..d}. g d' \<noteq> NaN} \<noteq> {}"
        using False by blast
      ultimately show ?thesis
        unfolding unfold idx nth_Cons_Suc IH split by (simp only: False if_False)
    qed
  qed
qed

text \<open>
  What the fill step does where it runs (the paths of \<open>get_fund_data\<close> other than the
  same-day one): on a series with rows, without a repeated date and without a missing value,
  the result has one row for every calendar day from the earliest to the latest date, no
  value is missing, and the value of a day is the value of the latest date of the series
  that is not after it.
\<close>

lemma fill_step_forward_fills:
  assumes "df \<noteq> []" and "distinct (map fst df)" and "\<forall>r\<in>set df. snd r \<noteq> NaN"
  shows "map fst (fill_step True df) = [Min (set (map fst df)) .. Max (set (map fst df))]
       \<and> (\<forall>d. Min (set (map fst df)) \<le> d \<and> d \<le> Max (set (map fst df)) \<longrightarrow>
            (\<exists>v. map_of (fill_step True df) d = Some v \<and> v \<noteq> NaN
               \<and> map_of df (Max {d' \<in> fst ` set df. d' \<le> d}) = Some v))"
proof -
  define lo where "lo = Min (set (map fst df))"
  define hi where "hi = Max (set (map fst df))"
  define g where "g = (\<lambda>d. case map_of df d of None \<Rightarrow> NaN | Some v \<Rightarrow> v)"
  define ys where "ys = ffill (map g [lo..hi])"
  have filled: "fill_step True df = zip [lo..hi] ys"
    using assms(1,2) by (simp add: fill_step_def fill_missing_days_def lo_def hi_def g_def ys_def)
  have len: "length ys = length [lo..hi]"
    by (simp add: ys_def ffill_def ffill_from_length)
  have dates: "map fst (fill_step True df) = [lo..hi]"
    unfolding filled using len by simp
  have fin: "finite (fst ` set df)" and ne: "fst ` set df \<noteq> {}" using assms(1) by simp_all
  have lo_in: "lo \<in> fst ` set df" unfolding lo_def using Min_in [OF fin ne] by simp
  have lo_le: "lo \<le> d'" if "d' \<in> fst ` set df" for d'
    unfolding lo_def using Min_le [OF fin that] by simp
  have g_in: "\<exists>v. map_of df d' = Some v \<and> g d' = v \<and> v \<noteq> NaN" if "d' \<in> fst ` set df" for d'
  proof -
    have "map_of df d' \<noteq> None" using that by (simp add: map_of_eq_None_iff)
    then obtain v where v: "map_of df d' = Some v" by blast
    then have "(d', v) \<in> set df" by (rule map_of_SomeD)
    then have "v \<noteq> NaN" using assms(3) by auto
    then show ?thesis using v by (simp add: g_def)
  qed
  have g_out: "g d' = NaN" if "d' \<notin> fst ` set df" for d'
  proof -
    have "map_of df d' = None" using that by (simp add: map_of_eq_None_iff)
    then show ?thesis by (simp add: g_def)
  qed
  have "\<exists>v. map_of (fill_step True df) d = Some v \<and> v \<noteq> NaN
               \<and> map_of df (Max {d' \<in> fst ` set df. d' \<le> d}) = Some v"
    if d: "lo \<le> d" "d \<le> hi" for d
  proof -
    let ?S = "{d' \<in> fst ` set df. d' \<le> d}"
    have S: "{d' \<in> {lo..d}. g d' \<noteq> NaN} = ?S"
    proof (rule set_eqI)
      fix x
      show "x \<in> {d' \<in> {lo..d}. g d' \<noteq> NaN} \<longleftrightarrow> x \<in> ?S"
      proof (cases "x \<in> fst ` set df")
        case True
        then have "g x \<noteq> NaN" using g_in [OF True] by metis
        then show ?thesis using True lo_le [OF True] by simp
      next
        case False
        then show ?thesis using g_out [OF False] by simp
      qed
    qed
    have Sfin: "finite ?S" using fin by simp
    have Sne: "?S \<noteq> {}" using lo_in d(1) by auto
    have "Max ?S \<in> ?S" by (rule Max_in [OF Sfin Sne])
    then have "Max ?S \<in> fst ` set df" by simp
    then obtain v where v: "map_of df (Max ?S) = Some v" "g (Max ?S) = v" "v \<noteq> NaN"
      using g_in by blast
    have i: "nat (d - lo) < length [lo..hi]" using d by simp
    have nth: "[lo..hi] ! nat (d - lo) = d" using d by simp
    have "ys ! nat (d - lo) = g (Max ?S)"
      unfolding ys_def ffill_def ffill_from_upto [OF d, of NaN g] S by (simp only: Sne if_False)
    moreover have "map_of (zip [lo..hi] ys) ([lo..hi] ! nat (d - lo)) = Some (ys ! nat (d - lo))"
      using len i by (intro map_of_zip_nth) simp_all
    ultimately have "map_of (fill_step True df) d = Some v"
      unfolding filled nth using v(2) by simp
    then show ?thesis using v by blast
  qed
  then show ?thesis using dates unfolding lo_def hi_def by blast
qed

section \<open>Properties of the period analysis\<close>

lemma pct_change_single: "pct_change [x] = [NaN]"
  by (simp add: pct_change_def ffill_def)

lemma calculate_volatility_short:
  assumes "length nav_series < 2"
  shows "calculate_volatility nav_series periods_per_year = NaN"
proof -
  have "nav_series = [] \<or> (\<exists>x. nav_series = [x])"
    using assms by (cases nav_series) (auto simp: length_Suc_conv)
  then have "dropna (pct_change nav_series) = []"
    by (auto simp: pct_change_single dropna_def) (simp add: pct_change_def ffill_def)
  then show ?thesis
    by (simp add: calculate_volatility_def series_std_def dropna_def)
qed

lemma window_start_end:
  fixes df :: "nav_row list"
  assumes "filter (\<lambda>r. start_date \<le> fst r \<and> fst r \<le> end_date) df = r # rs"
  shows "start_date \<le> end_date"
proof -
  have "r \<in> set (filter (\<lambda>r. start_date \<le> fst r \<and> fst r \<le> end_date) df)"
    by (simp add: assms)
  then show ?thesis by auto
qed

lemma period_single_row:
  assumes "filter (\<lambda>r. start_date \<le> fst r \<and> fst r \<le> end_date) df = [(d, Fin x)]"
      and "x \<noteq> 0"
  shows "period_analysis df False start_date end_date = OtherFund (Fin 0) (Fin 0) NaN"
  using assms window_start_end [OF assms(1)]
  by (simp add: period_analysis_def Let_def fl_sub_def pct_change_single
      series_mean_def series_sum_def dropna_def)

lemma period_single_row_money:
  assumes "filter (\<lambda>r. start_date \<le> fst r \<and> fst r \<le> end_date) df = [(d, Fin x)]"
  shows "period_analysis df True start_date end_date
         = MoneyFund (fl_mul (fl_sub (fl_pow (Fin (1 + x / 10000))
                                 (365 / real_of_int (end_date - start_date + 1))) (Fin 1)) (Fin 100))
                     (Fin (x / 100))"
  using assms window_start_end [OF assms]
  by (simp add: period_analysis_def Let_def series_sum_def dropna_def)

lemma statistics_single_row:
  assumes "filter (\<lambda>r. start_date \<le> fst r \<and> fst r \<le> end_date) df = [(d, Fin x)]"
  shows "\<not> statistics_raise df False"
proof -
  have "(d, Fin x) \<in> set (filter (\<lambda>r. start_date \<le> fst r \<and> fst r \<le> end_date) df)"
    by (simp add: assms)
  then have in_df: "(d, Fin x) \<in> set df" by simp
  then have "Fin x \<in> set (dropna (map snd df))" by (force simp: dropna_def)
  then have "dropna (map snd df) \<noteq> []" by auto
  moreover have "df \<noteq> []" using in_df by auto
  ultimately show ?thesis by (simp add: statistics_raise_def)
qed

text \<open>For a money fund with fewer than seven rows the page raises in its statistics block,
  before any period is analysed.\<close>

lemma statistics_raise_short_money:
  assumes "length df < 7"
  shows "display_fund_analysis df True start_date end_date = Raised"
proof -
  have "\<forall>i\<in>set [0..<length df]. i < 6" using assms by auto
  then have "rolling_7day_sum (map snd df) = map (\<lambda>i. NaN) [0..<length df]"
    by (simp add: rolling_7day_sum_def)
  then have "dropna (rolling_7day_annual (map snd df)) = []"
    by (simp add: rolling_7day_annual_def dropna_def o_def fl_sub_def)
  then show ?thesis by (simp add: display_fund_analysis_def statistics_raise_def)
qed

text \<open>
  Claim C9, as the code has it. Where the statistics block has not raised (for a money fund,
  on a frame of finite values), a period without rows is reported as an invalid period, for
  either kind of fund. A period of exactly one row is not reported at all. For a fund other
  than a money fund, with a non-zero value in that row, the page shows an annualized return
  of 0, a period return of 0 and a volatility of \<open>nan\<close> (the statistics block does not
  raise on such a frame). For a money fund whose only row in the period holds the income
  \<open>x\<close>, the page shows the cumulative return \<open>x / 100\<close> and the annualized return
  \<open>((1 + x / 10000) ^ (365 / calendar_days) - 1) * 100\<close>. In the metrics engine,
  \<open>calculate_volatility\<close> returns \<open>nan\<close> on every series of fewer than two rows,
  \<open>calculate_annual_return\<close> raises \<open>IndexError\<close> on an empty series and returns 0 on a
  series of one non-zero row.
\<close>

theorem short_window_outcomes:
  "(\<not> statistics_raise df is_money_fund \<and> (is_money_fund \<longrightarrow> finite_values df)
      \<and> filter (\<lambda>r. start_date \<le> fst r \<and> fst r \<le> end_date) df = [] \<longrightarrow>
       display_fund_analysis df is_money_fund start_date end_date = Shown InvalidPeriod)
   \<and> (filter (\<lambda>r. start_date \<le> fst r \<and> fst r \<le> end_date) df = [(d, Fin x)] \<and> x \<noteq> 0 \<longrightarrow>
       display_fund_analysis df False start_date end_date = Shown (OtherFund (Fin 0) (Fin 0) NaN))
   \<and> (\<not> statistics_raise df True \<and> finite_values df
      \<and> filter (\<lambda>r. start_date \<le> fst r \<and> fst r \<le> end_date) df = [(d, Fin x)] \<longrightarrow>
       display_fund_analysis df True start_date end_date
         = Shown (MoneyFund (fl_mul (fl_sub (fl_pow (Fin (1 + x / 10000))
                                 (365 / real_of_int (end_date - start_date + 1))) (Fin 1)) (Fin 100))
                            (Fin (x / 100))))
   \<and> (length nav_series < 2 \<longrightarrow> calculate_volatility nav_series periods_per_year = NaN)
   \<and> calculate_annual_return [] periods_per_year = Inl IndexError
   \<and> (x \<noteq> 0 \<longrightarrow> calculate_annual_return [Fin x] periods_per_year = Inr (Fin 0))"
proof (intro conjI impI)
  assume "\<not> statistics_raise df is_money_fund \<and> (is_money_fund \<longrightarrow> finite_values df)
      \<and> filter (\<lambda>r. start_date \<le> fst r \<and> fst r \<le> end_date) df = []"
  then show "display_fund_analysis df is_money_fund start_date end_date = Shown InvalidPeriod"
    by (simp add: display_fund_analysis_def period_analysis_def)
next
  assume a: "filter (\<lambda>r. start_date \<le> fst r \<and> fst r \<le> end_date) df = [(d, Fin x)] \<and> x \<noteq> 0"
  then have "\<not> statistics_raise df False" using statistics_single_row by blast
  moreover have "period_analysis df False start_date end_date = OtherFund (Fin 0) (Fin 0) NaN"
    using a period_single_row by blast
  ultimately show "display_fund_analysis df False start_date end_date
      = Shown (OtherFund (Fin 0) (Fin 0) NaN)"
    by (simp add: display_fund_analysis_def)
next
  assume a: "\<not> statistics_raise df True \<and> finite_values df
      \<and> filter (\<lambda>r. start_date \<le> fst r \<and> fst r \<le> end_date) df = [(d, Fin x)]"
  then have "period_analysis df True start_date end_date
         = MoneyFund (fl_mul (fl_sub (fl_pow (Fin (1 + x / 10000))
                                 (365 / real_of_int (end_date - start_date + 1))) (Fin 1)) (Fin 100))
                     (Fin (x / 100))"
    using period_single_row_money by blast
  then show "display_fund_analysis df True start_date end_date
         = Shown (MoneyFund (fl_mul (fl_sub (fl_pow (Fin (1 + x / 10000))
                                 (365 / real_of_int (end_date - start_date + 1))) (Fin 1)) (Fin 100))
                            (Fin (x / 100)))"
    using a by (simp add: display_fund_analysis_def)
next
  assume "length nav_series < 2"
  then show "calculate_volatility nav_series periods_per_year = NaN"
    by (rule calculate_volatility_short)
next
  show "calculate_annual_return [] periods_per_year = Inl IndexError"
    by (simp add: calculate_annual_return_def)
next
  assume "x \<noteq> 0"
  then show "calculate_annual_return [Fin x] periods_per_year = Inr (Fin 0)"
    by (simp add: calculate_annual_return_def fl_sub_def)
qed

lemma income_frame_statistics: "\<not> statistics_raise income_frame True"
proof -
  let ?navs = "map snd income_frame"
  have len: "length (rolling_7day_sum ?navs) = 8"
    by (simp add: rolling_7day_sum_def income_frame_def)
  have "rolling_7day_sum ?navs ! 6 = plain_sum (take 7 (drop (6 - 6) ?navs))"
    unfolding rolling_7day_sum_def by (subst nth_map) (simp_all add: income_frame_def)
  also have "\<dots> = Fin 7" by (simp add: plain_sum_def income_frame_def)
  finally have six: "rolling_7day_sum ?navs ! 6 = Fin 7" .
  have "rolling_7day_annual ?navs ! 6
      = (let rolling_return = fl_mul (fl_div (rolling_7day_sum ?navs ! 6) (Fin 10000)) (Fin 100)
         in fl_mul (fl_sub (fl_pow (fl_add (Fin 1) (fl_div rolling_return (Fin 100))) (365 / 7))
                           (Fin 1)) (Fin 100))"
    unfolding rolling_7day_annual_def using len by (subst nth_map) simp_all
  then have "rolling_7day_annual ?navs ! 6 \<noteq> NaN"
    unfolding six by (simp add: fl_sub_def)
  moreover have "6 < length (rolling_7day_annual ?navs)"
    using len by (simp add: rolling_7day_annual_def)
  ultimately have "\<exists>v\<in>set (rolling_7day_annual ?navs). v \<noteq> NaN"
    using nth_mem by blast
  then have "dropna (rolling_7day_annual ?navs) \<noteq> []"
    by (simp add: dropna_def filter_empty_conv)
  then show ?thesis by (simp add: statistics_raise_def income_frame_def)
qed

text \<open>A fund with rows on days 1 and 5: the period 2 to 4 is empty, the period 3 to 5 holds
  one row. A money fund with rows on days 1 to 7 and 10: the period 8 to 9 is empty, the
  period 10 to 10 holds one row.\<close>

theorem short_window_outcomes_witness:
  "display_fund_analysis [(1, Fin 1), (5, Fin 2)] False 2 4 = Shown InvalidPeriod
   \<and> display_fund_analysis income_frame True 8 9 = Shown InvalidPeriod
   \<and> display_fund_analysis [(1, Fin 1), (5, Fin 2)] False 3 5 = Shown (OtherFund (Fin 0) (Fin 0) NaN)
   \<and> display_fund_analysis income_frame True 10 10
       = Shown (MoneyFund (Fin (((10001 / 10000) powr 365 - 1) * 100)) (Fin (1 / 100)))
   \<and> calculate_volatility [Fin 2] 252 = NaN
   \<and> calculate_annual_return [] 252 = Inl IndexError
   \<and> calculate_annual_return [Fin 2] 252 = Inr (Fin 0)"
proof -
  have fin: "finite_values income_frame" by (simp add: finite_values_def income_frame_def)
  have st: "\<not> statistics_raise [(1 :: date, Fin 1), (5, Fin 2)] False"
    by (simp add: statistics_raise_def dropna_def)
  have e: "filter (\<lambda>r. 2 \<le> fst r \<and> fst r \<le> 4) [(1 :: date, Fin 1), (5, Fin 2)] = []" by simp
  have e': "filter (\<lambda>r. 8 \<le> fst r \<and> fst r \<le> 9) income_frame = []"
    by (simp add: income_frame_def)
  have o: "filter (\<lambda>r. 3 \<le> fst r \<and> fst r \<le> 5) [(1 :: date, Fin 1), (5, Fin 2)] = [(5, Fin 2)]
           \<and> (2 :: real) \<noteq> 0"
    by simp
  have o': "filter (\<lambda>r. 10 \<le> fst r \<and> fst r \<le> 10) income_frame = [(10, Fin 1)]"
    by (simp add: income_frame_def)
  have l: "length [Fin 2] < 2" by simp
  have z: "(2 :: real) \<noteq> 0" by simp
  note th1 = short_window_outcomes [of "[(1, Fin 1), (5, Fin 2)]" False 2 4 5 2 "[Fin 2]" 252]
  note th2 = short_window_outcomes [of income_frame True 8 9 10 1 "[Fin 2]" 252]
  note th3 = short_window_outcomes [of "[(1, Fin 1), (5, Fin 2)]" False 3 5 5 2 "[Fin 2]" 252]
  note th4 = short_window_outcomes [of income_frame True 10 10 10 1 "[Fin 2]" 252]
  have a: "display_fund_analysis [(1, Fin 1), (5, Fin 2)] False 2 4 = Shown InvalidPeriod"
    using th1 st e by blast
  have b: "display_fund_analysis income_frame True 8 9 = Shown InvalidPeriod"
    using th2 income_frame_statistics fin e' by blast
  have c: "display_fund_analysis [(1, Fin 1), (5, Fin 2)] False 3 5
             = Shown (OtherFund (Fin 0) (Fin 0) NaN)"
    using th3 o by blast
  have "display_fund_analysis income_frame True 10 10
       = Shown (MoneyFund (fl_mul (fl_sub (fl_pow (Fin (1 + 1 / 10000))
                                 (365 / real_of_int (10 - 10 + 1))) (Fin 1)) (Fin 100))
                          (Fin (1 / 100)))"
    using th4 income_frame_statistics fin o' by blast
  then have d: "display_fund_analysis income_frame True 10 10
       = Shown (MoneyFund (Fin (((10001 / 10000) powr 365 - 1) * 100)) (Fin (1 / 100)))"
    by (simp add: fl_sub_def)
  have f: "calculate_volatility [Fin 2] 252 = NaN" using th3 l by blast
  have g: "calculate_annual_return [] 252 = Inl IndexError" using th3 by blast
  have h: "calculate_annual_return [Fin 2] 252 = Inr (Fin 0)" using th3 z by blast
  from a b c d f g h show ?thesis by (intro conjI)
qed

text \<open>
  Against C9 as stated: the period 3 to 5 holds a single row, and the outcome is the
  ordinary report with the figures 0, 0 and \<open>nan\<close>, not the error outcome; the two
  functions of the metrics engine return \<open>nan\<close> and 0 without any signal.
\<close>

theorem single_row_window_counterexample:
  "length (filter (\<lambda>r. 3 \<le> fst r \<and> fst r \<le> 5) [(1 :: date, Fin 1), (5, Fin 2)]) < 2
   \<and> display_fund_analysis [(1, Fin 1), (5, Fin 2)] False 3 5 = Shown (OtherFund (Fin 0) (Fin 0) NaN)
   \<and> display_fund_analysis [(1, Fin 1), (5, Fin 2)] False 3 5 \<noteq> Shown InvalidPeriod
   \<and> calculate_volatility [Fin 2] 252 = NaN
   \<and> calculate_annual_return [Fin 2] 252 = Inr (Fin 0)"
proof -
  have w: "filter (\<lambda>r. 3 \<le> fst r \<and> fst r \<le> 5) [(1 :: date, Fin 1), (5, Fin 2)] = [(5, Fin 2)]"
    by simp
  have "period_analysis [(1, Fin 1), (5, Fin 2)] False 3 5 = OtherFund (Fin 0) (Fin 0) NaN"
    using period_single_row [of 3 5 "[(1, Fin 1), (5, Fin 2)]" 5 2] w by simp
  moreover have "\<not> statistics_raise [(1 :: date, Fin 1), (5, Fin 2)] False"
    by (simp add: statistics_raise_def dropna_def)
  ultimately have "display_fund_analysis [(1, Fin 1), (5, Fin 2)] False 3 5
      = Shown (OtherFund (Fin 0) (Fin 0) NaN)"
    by (simp add: display_fund_analysis_def)
  moreover have "calculate_volatility [Fin 2] 252 = NaN"
    by (rule calculate_volatility_short) simp
  moreover have "calculate_annual_return [Fin 2] 252 = Inr (Fin 0)"
    by (simp add: calculate_annual_return_def fl_sub_def)
  ultimately show ?thesis by simp
qed

end
